theory Spec2Isabelle
  imports Complex_Main "HOL-Library.AList"
begin

section \<open>JavaScript values\<close>

text \<open>
  The values that travel through \<^verbatim>\<open>src/index.js\<close>: records delivered by the remote
  store, component data of the host's entities, outbound records. Objects are property
  lists in enumeration order (\<open>Object.keys\<close> is the list of first components, a
  property read is \<open>map_of\<close>). The numbers inside component data are integers; the
  tick clock and the interval are doubles, treated in the section on double-precision
  arithmetic.
\<close>

datatype jsval =
    JUndefined
  | JNull
  | JBool bool
  | JNum int
  | JStr string
  | JArr "jsval list"
  | JObj "(string \<times> jsval) list"

type_synonym jsobj = "(string \<times> jsval) list"

datatype error = TypeError | HierarchyRequestError

datatype outcome = Returned | Threw error

text \<open>Truthiness, as \<open>if (v)\<close>, \<open>!v\<close> and \<open>a || b\<close> test it.\<close>

fun js_truthy :: "jsval \<Rightarrow> bool" where
  "js_truthy JUndefined = False"
| "js_truthy JNull = False"
| "js_truthy (JBool b) = b"
| "js_truthy (JNum n) = (n \<noteq> 0)"
| "js_truthy (JStr s) = (s \<noteq> [])"
| "js_truthy (JArr xs) = True"
| "js_truthy (JObj kvs) = True"

text \<open>\<open>Object.keys(o)\<close> and the property read \<open>o[k]\<close> of an object.\<close>

definition Object_keys :: "(string \<times> 'a) list \<Rightarrow> string list" where
  "Object_keys obj = map fst obj"

definition obj_get :: "jsobj \<Rightarrow> string \<Rightarrow> jsval" where
  "obj_get obj k = (case map_of obj k of None \<Rightarrow> JUndefined | Some v \<Rightarrow> v)"

text \<open>
  The property read \<open>v[k]\<close> (or \<open>v.k\<close>) of any value: a TypeError on \<open>undefined\<close>
  and \<open>null\<close>, the property of an object, \<open>undefined\<close> on the other values (the
  built-in properties of strings and arrays are not modelled).
\<close>

fun js_get :: "jsval \<Rightarrow> string \<Rightarrow> error + jsval" where
  "js_get JUndefined k = Inl TypeError"
| "js_get JNull k = Inl TypeError"
| "js_get (JObj kvs) k = Inr (obj_get kvs k)"
| "js_get v k = Inr JUndefined"

text \<open>The string coercion \<open>String(v)\<close>, used by \<open>'#' + data.id\<close> and by property keys.\<close>

fun show_nat :: "nat \<Rightarrow> string" where
  "show_nat n =
     (if n < 10 then [''0123456789'' ! n]
      else show_nat (n div 10) @ [''0123456789'' ! (n mod 10)])"

declare show_nat.simps [simp del]

fun join_comma :: "string list \<Rightarrow> string" where
  "join_comma [] = []"
| "join_comma [x] = x"
| "join_comma (x # y # ys) = x @ '','' @ join_comma (y # ys)"

fun js_to_string :: "jsval \<Rightarrow> string" where
  "js_to_string JUndefined = ''undefined''"
| "js_to_string JNull = ''null''"
| "js_to_string (JBool b) = (if b then ''true'' else ''false'')"
| "js_to_string (JNum n) =
     (if n < 0 then CHR ''-'' # show_nat (nat (- n)) else show_nat (nat n))"
| "js_to_string (JStr s) = s"
| "js_to_string (JArr xs) =
     join_comma (map (\<lambda>v. if v = JUndefined \<or> v = JNull then [] else js_to_string v) xs)"
| "js_to_string (JObj kvs) = ''[object Object]''"

text \<open>\<open>attribute.split('|')\<close>.\<close>

fun split_on :: "char \<Rightarrow> string \<Rightarrow> string list" where
  "split_on c [] = [[]]"
| "split_on c (x # xs) =
     (if x = c then [] # split_on c xs
      else (case split_on c xs of [] \<Rightarrow> [[x]] | w # ws \<Rightarrow> (x # w) # ws))"

section \<open>The host scene graph and the system object\<close>

text \<open>
  The host (A-Frame and the DOM) is external to \<^verbatim>\<open>src/index.js\<close>. It is modelled as
  far as the source reads it back: each element has an attribute store, written by
  \<open>el.setAttribute\<close> and read by \<open>el.getAttribute\<close> and
  \<open>el.getComputedAttribute\<close>, a parent pointer, and the private flag
  \<open>firebaseBroadcastOnce\<close> that \<open>tick\<close> sets on it. Elements are referred to by
  handles; \<open>document.createElement\<close> hands out the next handle.
\<close>

type_synonym handle = nat

record element =
  attrs :: "string \<rightharpoonup> jsval"
  parentNode :: "handle option"
  firebaseBroadcastOnce :: bool

text \<open>What a table lookup such as \<open>this.entities[id]\<close> can yield.\<close>

datatype elref = Undefined | Null | El handle

text \<open>
  The system object \<open>this\<close> of the \<open>firebase\<close> system, together with the host's
  elements and the calls issued to the remote store. \<open>firebase\<close> and \<open>database\<close>
  say whether the fields \<open>this.firebase\<close> and \<open>this.database\<close> are set;
  \<open>interval\<close> and \<open>time\<close> are \<open>None\<close> while the fields are undefined.
  \<open>broadcastingEntities\<close> is enumerated by \<open>tick\<close>, so it keeps its order;
  \<open>updates\<close> logs every \<open>database.child('entities/' + id).update(data)\<close>.
\<close>

record system =
  firebase :: bool
  database :: bool
  channel :: "string option"
  interval :: "rat option"
  time :: "rat option"
  clientId :: string
  broadcastingEntities :: "(string \<times> handle) list"
  entities :: "string \<Rightarrow> elref"
  sceneEl :: handle
  els :: "handle \<Rightarrow> element"
  nextHandle :: handle
  updates :: "(string \<times> jsobj) list"
  pushed :: nat
  onDisconnect :: "string list"

definition new_element :: element where
  "new_element = \<lparr>attrs = Map.empty, parentNode = None, firebaseBroadcastOnce = False\<rparr>"

text \<open>\<open>el.getAttribute(name)\<close> and \<open>el.getComputedAttribute(name)\<close> of the host.\<close>

definition el_getAttribute :: "system \<Rightarrow> handle \<Rightarrow> string \<Rightarrow> jsval" where
  "el_getAttribute s h name = (case attrs (els s h) name of None \<Rightarrow> JNull | Some v \<Rightarrow> v)"

definition el_getComputedAttribute :: "system \<Rightarrow> handle \<Rightarrow> string \<Rightarrow> jsval" where
  "el_getComputedAttribute s h name =
     (case attrs (els s h) name of None \<Rightarrow> JUndefined | Some v \<Rightarrow> v)"

text \<open>\<open>el.setAttribute(name, value)\<close> and \<open>el.setAttribute(name, property, value)\<close>.\<close>

definition el_setAttribute :: "handle \<Rightarrow> string \<Rightarrow> jsval \<Rightarrow> system \<Rightarrow> system" where
  "el_setAttribute h name v s =
     s\<lparr>els := (els s)(h := (els s h)\<lparr>attrs := (attrs (els s h))(name \<mapsto> v)\<rparr>)\<rparr>"

fun js_set :: "jsval \<Rightarrow> string \<Rightarrow> jsval \<Rightarrow> jsval" where
  "js_set (JObj kvs) p v = JObj (AList.update p v kvs)"
| "js_set w p v = JObj [(p, v)]"

definition el_setProperty :: "handle \<Rightarrow> string \<Rightarrow> string \<Rightarrow> jsval \<Rightarrow> system \<Rightarrow> system" where
  "el_setProperty h name p v s =
     el_setAttribute h name (js_set (el_getComputedAttribute s h name) p v) s"

text \<open>\<open>document.createElement('a-entity')\<close> and \<open>parent.appendChild(child)\<close>.\<close>

definition createElement :: "system \<Rightarrow> handle \<times> system" where
  "createElement s =
     (nextHandle s,
      s\<lparr>els := (els s)(nextHandle s := new_element), nextHandle := Suc (nextHandle s)\<rparr>)"

definition appendChild :: "handle \<Rightarrow> handle \<Rightarrow> system \<Rightarrow> outcome \<times> system" where
  "appendChild parent child s =
     (if parent = child then (Threw HierarchyRequestError, s)
      else (Returned, s\<lparr>els := (els s)(child := (els s child)\<lparr>parentNode := Some parent\<rparr>)\<rparr>))"

text \<open>
  \<open>sceneEl.querySelector('#' + id)\<close>: an element below the scene whose \<open>id\<close>
  attribute is \<open>id\<close>, or \<open>null\<close>. Identifiers are taken to be CSS identifiers and
  unique in the document (the first handle that matches is the answer).
\<close>

fun attached :: "system \<Rightarrow> nat \<Rightarrow> handle \<Rightarrow> bool" where
  "attached s 0 h = False"
| "attached s (Suc n) h =
     (case parentNode (els s h) of
        None \<Rightarrow> False
      | Some p \<Rightarrow> p = sceneEl s \<or> attached s n p)"

definition has_id :: "system \<Rightarrow> string \<Rightarrow> handle \<Rightarrow> bool" where
  "has_id s i h =
     (case attrs (els s h) ''id'' of None \<Rightarrow> False | Some v \<Rightarrow> js_to_string v = i)"

definition querySelector :: "system \<Rightarrow> string \<Rightarrow> elref" where
  "querySelector s sel =
     (case sel of
        [] \<Rightarrow> Null
      | c # i \<Rightarrow>
          if c = CHR ''#'' then
            (case find (\<lambda>h. attached s (nextHandle s) h \<and> has_id s i h) [0..<nextHandle s] of
               None \<Rightarrow> Null
             | Some h \<Rightarrow> El h)
          else Null)"

section \<open>The attribute accessors\<close>

text \<open>
  \<open>setAttribute(el, attribute, value)\<close> of the source (lines 262 to 270): a name
  \<open>component|property\<close> sets one property, any other name the whole attribute. The
  method call on \<open>null\<close> or \<open>undefined\<close> is a TypeError.
\<close>

definition setAttribute :: "elref \<Rightarrow> string \<Rightarrow> jsval \<Rightarrow> system \<Rightarrow> outcome \<times> system" where
  "setAttribute el attribute v s =
     (case el of
        El h \<Rightarrow>
          (case split_on CHR ''|'' attribute of
             [c, p] \<Rightarrow> (Returned, el_setProperty h c p v s)
           | _ \<Rightarrow> (Returned, el_setAttribute h attribute v s))
      | _ \<Rightarrow> (Threw TypeError, s))"

text \<open>\<open>getComputedAttribute(el, attribute)\<close> of the source (lines 250 to 257).\<close>

definition getComputedAttribute :: "system \<Rightarrow> handle \<Rightarrow> string \<Rightarrow> error + jsval" where
  "getComputedAttribute s h attribute =
     (case split_on CHR ''|'' attribute of
        [c, p] \<Rightarrow> js_get (el_getComputedAttribute s h c) p
      | _ \<Rightarrow> Inr (el_getComputedAttribute s h attribute))"

text \<open>\<open>xs.forEach(f)\<close>, where an exception thrown by \<open>f\<close> ends the loop.\<close>

fun forEach :: "('a \<Rightarrow> system \<Rightarrow> outcome \<times> system) \<Rightarrow> 'a list \<Rightarrow> system \<Rightarrow> outcome \<times> system" where
  "forEach f [] s = (Returned, s)"
| "forEach f (x # xs) s =
     (case f x s of
        (Returned, s') \<Rightarrow> forEach f xs s'
      | (Threw e, s') \<Rightarrow> (Threw e, s'))"

section \<open>Remote events\<close>

text \<open>
  \<open>handleEntityAdded\<close> (lines 75 to 101). \<open>known\<close> is the test of line 77: a table
  entry counts when it is an element, not \<open>null\<close> or \<open>undefined\<close>.
  \<open>delete data.parentId\<close> changes the caller's record only and is not part of the
  state.
\<close>

definition known :: "system \<Rightarrow> string \<Rightarrow> bool" where
  "known s rid =
     ((case entities s rid of El h \<Rightarrow> True | _ \<Rightarrow> False)
      \<or> map_of (broadcastingEntities s) rid \<noteq> None)"

definition setComponent_added :: "elref \<Rightarrow> jsobj \<Rightarrow> string \<Rightarrow> system \<Rightarrow> outcome \<times> system" where
  "setComponent_added entity data componentName s =
     (if componentName = ''firebase-broadcast'' \<or> componentName = ''parentId''
      then (Returned, s)
      else setAttribute entity componentName (obj_get data componentName) s)"

definition handleEntityAdded :: "string \<Rightarrow> jsobj \<Rightarrow> system \<Rightarrow> outcome \<times> system" where
  "handleEntityAdded rid data s =
     (if known s rid then (Returned, s)
      else
        (case js_get (obj_get data ''firebase-broadcast'') ''shared'' of
           Inl e \<Rightarrow> (Threw e, s)
         | Inr sh \<Rightarrow>
             let reuse = (sh = JBool True \<and> js_truthy (obj_get data ''id''));
                 created = \<not> reuse;
                 (entity, s1) =
                   (if reuse
                    then (querySelector s (''#'' @ js_to_string (obj_get data ''id'')), s)
                    else (case createElement s of (h, s') \<Rightarrow> (El h, s')));
                 s2 = s1\<lparr>entities := (entities s1)(rid := entity)\<rparr>
             in (case forEach (setComponent_added entity data) (Object_keys data) s2 of
                   (Threw e, s3) \<Rightarrow> (Threw e, s3)
                 | (Returned, s3) \<Rightarrow>
                     let parentEl =
                           (case entities s3 (js_to_string (obj_get data ''parentId'')) of
                              El p \<Rightarrow> p
                            | _ \<Rightarrow> sceneEl s3)
                     in (case entity of
                           El h \<Rightarrow> if created then appendChild parentEl h s3 else (Returned, s3)
                         | _ \<Rightarrow> (Returned, s3)))))"

text \<open>\<open>handleEntityChanged\<close> (lines 106 to 115).\<close>

definition setComponent_changed :: "elref \<Rightarrow> jsobj \<Rightarrow> string \<Rightarrow> system \<Rightarrow> outcome \<times> system" where
  "setComponent_changed entity components componentName s =
     (if componentName = ''parentId'' then (Returned, s)
      else setAttribute entity componentName (obj_get components componentName) s)"

definition handleEntityChanged :: "string \<Rightarrow> jsobj \<Rightarrow> system \<Rightarrow> outcome \<times> system" where
  "handleEntityChanged rid components s =
     (if map_of (broadcastingEntities s) rid \<noteq> None then (Returned, s)
      else forEach (setComponent_changed (entities s rid) components) (Object_keys components) s)"

section \<open>Double-precision arithmetic\<close>

text \<open>
  The tick clock and the interval are JavaScript numbers, finite doubles, each given here
  by its rational value. The one arithmetic operation the source performs on them is the
  subtraction \<open>time - this.time\<close> of line 163, whose result is the exact difference
  rounded to the nearest double, ties to the even significand (IEEE 754 binary64: 53
  significant bits, exponents from -1022 to 1023, gradual underflow, overflow to an
  infinity).

  \<open>lg a\<close> is the binary exponent of a positive rational: the integer \<open>e\<close> with
  \<open>2 powi e \<le> a < 2 powi (e + 1)\<close>.
\<close>

function lg_hi :: "rat \<Rightarrow> int" where
  "lg_hi a = (if 2 \<le> a then lg_hi (a / 2) + 1 else 0)"
  by pat_completeness auto
termination
proof (relation "measure (\<lambda>a. nat \<lfloor>a\<rfloor>)")
  show "wf (measure (\<lambda>a::rat. nat \<lfloor>a\<rfloor>))" by simp
next
  fix a :: rat assume a: "2 \<le> a"
  then have f: "2 \<le> \<lfloor>a\<rfloor>" by simp
  have "a < of_int \<lfloor>a\<rfloor> + 1" by linarith
  then have "a / 2 < of_int \<lfloor>a\<rfloor>" using f by (simp add: field_simps)
  then have "\<lfloor>a / 2\<rfloor> < \<lfloor>a\<rfloor>" by (simp add: floor_less_iff)
  with f show "(a / 2, a) \<in> measure (\<lambda>a. nat \<lfloor>a\<rfloor>)" by simp
qed

function lg_lo :: "rat \<Rightarrow> int" where
  "lg_lo a = (if 0 < a \<and> a < 1 then lg_lo (2 * a) - 1 else 0)"
  by pat_completeness auto
termination
proof (relation "measure (\<lambda>a. nat \<lfloor>1 / a\<rfloor>)")
  show "wf (measure (\<lambda>a::rat. nat \<lfloor>1 / a\<rfloor>))" by simp
next
  fix a :: rat assume a: "0 < a \<and> a < 1"
  define y where "y = 1 / a"
  have "1 \<le> y" using a by (simp add: y_def)
  then have f: "1 \<le> \<lfloor>y\<rfloor>" by simp
  have "y < of_int \<lfloor>y\<rfloor> + 1" by linarith
  moreover have "(1::rat) \<le> of_int \<lfloor>y\<rfloor>" using f by (simp only: of_int_le_iff [symmetric] of_int_1)
  ultimately have "y / 2 < of_int \<lfloor>y\<rfloor>" by linarith
  then have "\<lfloor>y / 2\<rfloor> < \<lfloor>y\<rfloor>" by (simp add: floor_less_iff)
  moreover have "1 / (2 * a) = y / 2" by (simp add: y_def)
  ultimately have "\<lfloor>1 / (2 * a)\<rfloor> < \<lfloor>1 / a\<rfloor>" by (simp only: y_def)
  moreover have "0 < \<lfloor>1 / a\<rfloor>" using f unfolding y_def by linarith
  ultimately show "(2 * a, a) \<in> measure (\<lambda>a. nat \<lfloor>1 / a\<rfloor>)"
    by (simp only: in_measure zless_nat_conj)
qed

declare lg_hi.simps [simp del] lg_lo.simps [simp del]

definition lg :: "rat \<Rightarrow> int" where
  "lg a = (if 1 \<le> a then lg_hi a else lg_lo a)"

text \<open>
  Rounding to the nearest integer, ties to even; the spacing of the doubles around a
  positive rational (\<open>2 powi (e - 52)\<close> in the binade of exponent \<open>e\<close>, and that of
  exponent -1022 below it); and the nearest multiple of that spacing.
\<close>

definition rne :: "rat \<Rightarrow> int" where
  "rne y =
     (let f = \<lfloor>y\<rfloor>; r = y - of_int f
      in if r < 1 / 2 then f
         else if 1 / 2 < r then f + 1
         else if even f then f else f + 1)"

definition ulp :: "rat \<Rightarrow> rat" where
  "ulp a = 2 powi (max (lg a) (- 1022) - 52)"

definition round_mag :: "rat \<Rightarrow> rat" where
  "round_mag a = of_int (rne (a / ulp a)) * ulp a"

text \<open>
  The result of an arithmetic operation whose exact value is \<open>x\<close>: a magnitude that
  rounds to \<open>2 powi 1024\<close> or more overflows. \<open>double_less d i\<close> is the comparison
  \<open>d < i\<close> with a finite right-hand side. \<open>is_double x\<close> says that \<open>x\<close> is the value
  of a finite double, and \<open>nearest_double x\<close> is the double that the decimal literal of value
  \<open>x\<close> denotes.
\<close>

datatype double = Finite rat | PosInfinity | NegInfinity

definition round_double :: "rat \<Rightarrow> double" where
  "round_double x =
     (if x = 0 then Finite 0
      else if 1024 \<le> lg (round_mag \<bar>x\<bar>) then (if 0 < x then PosInfinity else NegInfinity)
      else Finite (if 0 < x then round_mag \<bar>x\<bar> else - round_mag \<bar>x\<bar>))"

definition double_less :: "double \<Rightarrow> rat \<Rightarrow> bool" where
  "double_less d i = (case d of Finite r \<Rightarrow> r < i | PosInfinity \<Rightarrow> False | NegInfinity \<Rightarrow> True)"

definition is_double :: "rat \<Rightarrow> bool" where
  "is_double x \<longleftrightarrow> round_double x = Finite x"

definition nearest_double :: "rat \<Rightarrow> rat" where
  "nearest_double x = (case round_double x of Finite r \<Rightarrow> r | _ \<Rightarrow> 0)"

section \<open>Broadcasting\<close>

text \<open>
  The data of an element's \<open>firebase-broadcast\<close> component, as
  \<open>el.getComputedAttribute('firebase-broadcast')\<close> yields it: the stored attribute read
  through the schema of lines 231 to 237, which gives each property its type and its
  default. An element without the attribute yields \<open>undefined\<close> (\<open>None\<close>).
\<close>

record broadcast_data =
  bid :: string
  components :: "string list"
  componentsOnce :: "string list"
  shared :: bool
  owner :: string

fun js_prop :: "jsval \<Rightarrow> string \<Rightarrow> jsval" where
  "js_prop (JObj kvs) k = obj_get kvs k"
| "js_prop v k = JUndefined"

fun strings_of :: "jsval list \<Rightarrow> string list" where
  "strings_of [] = []"
| "strings_of (JStr x # vs) = x # strings_of vs"
| "strings_of (v # vs) = strings_of vs"

definition parse_broadcast :: "jsval \<Rightarrow> broadcast_data" where
  "parse_broadcast v =
     \<lparr>bid = (case js_prop v ''id'' of JStr x \<Rightarrow> x | _ \<Rightarrow> []),
      components =
        (case js_prop v ''components'' of
           JArr xs \<Rightarrow> strings_of xs
         | _ \<Rightarrow> [''position'', ''rotation'']),
      componentsOnce = (case js_prop v ''componentsOnce'' of JArr xs \<Rightarrow> strings_of xs | _ \<Rightarrow> []),
      shared = (case js_prop v ''shared'' of JBool b \<Rightarrow> b | _ \<Rightarrow> False),
      owner = (case js_prop v ''owner'' of JStr x \<Rightarrow> x | _ \<Rightarrow> [])\<rparr>"

definition getBroadcastData :: "system \<Rightarrow> handle \<Rightarrow> broadcast_data option" where
  "getBroadcastData s h = map_option parse_broadcast (attrs (els s h) ''firebase-broadcast'')"

text \<open>
  \<open>registerBroadcast\<close> (lines 130 to 149). The table is keyed by the element's own
  \<open>id\<close> attribute. \<open>upstreamEntity\<close> is a query of the remote store, which has no
  \<open>owner\<close> property, so line 140 never returns; the call \<open>database.child\<close> is a
  TypeError while \<open>this.database\<close> is undefined. \<open>push_key\<close> stands for the key
  generator of the remote store.
\<close>

definition push_key :: "nat \<Rightarrow> string" where
  "push_key n = ''-K'' @ show_nat n"

definition registerBroadcast :: "handle \<Rightarrow> system \<Rightarrow> outcome \<times> system" where
  "registerBroadcast el s =
     (let broadcastData = getBroadcastData s el;
          rid = js_to_string (el_getAttribute s el ''id'');
          s1 = s\<lparr>broadcastingEntities := AList.update rid el (broadcastingEntities s)\<rparr>
      in (case broadcastData of
            None \<Rightarrow> (Threw TypeError, s1)
          | Some bd \<Rightarrow>
              if \<not> database s1 then (Threw TypeError, s1)
              else
                let key = push_key (pushed s1);
                    s2 = el_setProperty el ''firebase-broadcast'' ''id'' (JStr key)
                           (s1\<lparr>pushed := Suc (pushed s1)\<rparr>)
                in (Returned, s2\<lparr>onDisconnect := onDisconnect s2 @ [key]\<rparr>)))"

text \<open>
  The callback \<open>broadcastEntity\<close> of \<open>tick\<close> (lines 166 to 208), in the order of
  the source: the record with \<open>id\<close> and \<open>firebase-broadcast\<close>, the ownership
  claim (lines 179 to 183), the ownership check (line 186), the components to broadcast
  once (lines 189 to 192), the parent (lines 195 to 199), the component data (lines 202
  to 204) and the update (line 207).
\<close>

definition claimOwner ::
  "handle \<Rightarrow> broadcast_data \<Rightarrow> jsobj \<Rightarrow> system \<Rightarrow> broadcast_data \<times> jsobj \<times> system" where
  "claimOwner el broadcastData data s =
     (if shared broadcastData \<and> owner broadcastData = []
      then (broadcastData\<lparr>owner := clientId s\<rparr>,
            AList.update ''firebase-broadcast''
              (js_set (obj_get data ''firebase-broadcast'') ''owner'' (JStr (clientId s))) data,
            el_setProperty el ''firebase-broadcast'' ''owner'' (JStr (clientId s)) s)
      else (broadcastData, data, s))"

definition addOnce ::
  "handle \<Rightarrow> broadcast_data \<Rightarrow> system \<Rightarrow> string list \<times> system" where
  "addOnce el broadcastData s =
     (if \<not> firebaseBroadcastOnce (els s el)
      then (components broadcastData @ componentsOnce broadcastData,
            s\<lparr>els := (els s)(el := (els s el)\<lparr>firebaseBroadcastOnce := True\<rparr>)\<rparr>)
      else (components broadcastData, s))"

fun getData :: "system \<Rightarrow> handle \<Rightarrow> string list \<Rightarrow> jsobj \<Rightarrow> error + jsobj" where
  "getData s el [] data = Inr data"
| "getData s el (componentName # cs) data =
     (case getComputedAttribute s el componentName of
        Inl e \<Rightarrow> Inl e
      | Inr v \<Rightarrow> getData s el cs (AList.update componentName v data))"

definition buildAndUpdate ::
  "string \<Rightarrow> handle \<Rightarrow> string list \<Rightarrow> jsobj \<Rightarrow> system \<Rightarrow> outcome \<times> system" where
  "buildAndUpdate rid el comps data s =
     (case getData s el comps data of
        Inl e \<Rightarrow> (Threw e, s)
      | Inr data' \<Rightarrow> (Returned, s\<lparr>updates := updates s @ [(rid, data')]\<rparr>))"

definition linkParent ::
  "string \<Rightarrow> handle \<Rightarrow> string list \<Rightarrow> jsobj \<Rightarrow> system \<Rightarrow> outcome \<times> system" where
  "linkParent rid el comps data s =
     (case parentNode (els s el) of
        None \<Rightarrow> buildAndUpdate rid el comps data s
      | Some p \<Rightarrow>
          if p = sceneEl s then buildAndUpdate rid el comps data s
          else
            let parentBroadcastData = el_getAttribute s p ''firebase-broadcast''
            in if \<not> js_truthy parentBroadcastData then (Returned, s)
               else (case js_get parentBroadcastData ''id'' of
                       Inl e \<Rightarrow> (Threw e, s)
                     | Inr pid \<Rightarrow>
                         buildAndUpdate rid el comps (AList.update ''parentId'' pid data) s))"

definition broadcastEntity :: "string \<Rightarrow> system \<Rightarrow> outcome \<times> system" where
  "broadcastEntity rid s =
     (case map_of (broadcastingEntities s) rid of
        None \<Rightarrow> (Threw TypeError, s)
      | Some el \<Rightarrow>
          (case getBroadcastData s el of
             None \<Rightarrow> (Threw TypeError, s)
           | Some broadcastData0 \<Rightarrow>
               (case claimOwner el broadcastData0
                       [(''id'', el_getAttribute s el ''id''),
                        (''firebase-broadcast'',
                           JObj [(''shared'', JBool (shared broadcastData0))])] s of
                  (broadcastData, data, s1) \<Rightarrow>
                    if shared broadcastData \<and> owner broadcastData \<noteq> clientId s1
                    then (Returned, s1)
                    else (case addOnce el broadcastData s1 of
                            (comps, s2) \<Rightarrow> linkParent rid el comps data s2))))"

text \<open>
  \<open>tick\<close> (lines 154 to 209). \<open>this.time\<close> is undefined until the first pass, and
  a comparison with the resulting NaN is false, so the first tick passes the interval
  check; so does a tick while \<open>this.interval\<close> is undefined. Otherwise line 163
  compares the rounded difference of the two doubles with the interval.
\<close>

definition tooEarly :: "rat \<Rightarrow> system \<Rightarrow> bool" where
  "tooEarly t s =
     (case time s of
        None \<Rightarrow> False
      | Some t0 \<Rightarrow>
          (case interval s of
             None \<Rightarrow> False
           | Some i \<Rightarrow> double_less (round_double (t - t0)) i))"

definition tick :: "rat \<Rightarrow> system \<Rightarrow> outcome \<times> system" where
  "tick t s =
     (if \<not> firebase s then (Returned, s)
      else if tooEarly t s then (Returned, s)
      else forEach broadcastEntity (Object_keys (broadcastingEntities s)) (s\<lparr>time := Some t\<rparr>))"

text \<open>
  \<open>init\<close> (lines 15 to 58). \<open>config\<close> is the scene's \<open>firebase\<close> attribute after
  line 30, \<open>None\<close> when it is falsy, with the entries of the schema of lines 217 to
  224 that \<open>init\<close> reads (an absent \<open>channel\<close> is the empty string, an absent
  \<open>interval\<close> is 0). The subscriptions of lines 43 to 57 are the remote store's
  business: they deliver the events of the previous section.
\<close>

record config =
  cfg_channel :: string
  cfg_interval :: rat

definition init ::
  "handle \<Rightarrow> (handle \<Rightarrow> element) \<Rightarrow> handle \<Rightarrow> string \<Rightarrow> string \<Rightarrow> config option \<Rightarrow> system" where
  "init scene es nxt uuid channelQueryParam cfg =
     (let s = \<lparr>firebase = False, database = False, channel = None, interval = None,
                time = None, clientId = uuid, broadcastingEntities = [],
                entities = (\<lambda>k. Undefined), sceneEl = scene, els = es, nextHandle = nxt,
                updates = [], pushed = 0, onDisconnect = []\<rparr>
      in (case cfg of
            None \<Rightarrow> s
          | Some c \<Rightarrow>
              s\<lparr>firebase := True, database := True,
                channel := Some (if channelQueryParam \<noteq> [] then channelQueryParam
                                 else if cfg_channel c \<noteq> [] then cfg_channel c
                                 else ''default''),
                interval := Some (if cfg_interval c \<noteq> 0 then cfg_interval c else 10)\<rparr>))"

text \<open>A run of ticks, as the host's loop issues them; an exception ends one tick only.\<close>

fun ticks :: "rat list \<Rightarrow> system \<Rightarrow> system" where
  "ticks [] s = s"
| "ticks (t # ts) s = ticks ts (snd (tick t s))"

section \<open>Observations\<close>

text \<open>
  The owner an element's broadcast data names, and the updates issued to the remote
  store between two states.
\<close>

definition ownerOf :: "system \<Rightarrow> handle \<Rightarrow> string option" where
  "ownerOf s h = map_option owner (getBroadcastData s h)"

definition issued :: "system \<Rightarrow> system \<Rightarrow> (string \<times> jsobj) list" where
  "issued s s' = drop (length (updates s)) (updates s')"

text \<open>
  The two writes of \<open>broadcastEntity\<close> to the element it handles: the claim of line
  180 and the flag of line 191. \<open>stepped\<close> bounds what one call of the callback can
  change.
\<close>

definition claimed :: "handle \<Rightarrow> system \<Rightarrow> system" where
  "claimed el s = el_setProperty el ''firebase-broadcast'' ''owner'' (JStr (clientId s)) s"

definition flagged :: "handle \<Rightarrow> system \<Rightarrow> system" where
  "flagged el s = s\<lparr>els := (els s)(el := (els s el)\<lparr>firebaseBroadcastOnce := True\<rparr>)\<rparr>"

definition stepped :: "string \<Rightarrow> system \<Rightarrow> system \<Rightarrow> bool" where
  "stepped rid s s' \<longleftrightarrow>
     firebase s' = firebase s \<and> interval s' = interval s \<and> time s' = time s \<and>
     clientId s' = clientId s \<and> broadcastingEntities s' = broadcastingEntities s \<and>
     sceneEl s' = sceneEl s \<and>
     (\<forall>h. parentNode (els s' h) = parentNode (els s h)) \<and>
     (\<forall>h n. n \<noteq> ''firebase-broadcast'' \<longrightarrow> attrs (els s' h) n = attrs (els s h) n) \<and>
     (\<forall>h. attrs (els s' h) ''firebase-broadcast'' = attrs (els s h) ''firebase-broadcast'' \<or>
          (\<exists>kvs. attrs (els s h) ''firebase-broadcast'' = Some (JObj kvs) \<and>
                 shared (parse_broadcast (JObj kvs)) \<and> owner (parse_broadcast (JObj kvs)) = [] \<and>
                 map_of (broadcastingEntities s) rid = Some h \<and>
                 attrs (els s' h) ''firebase-broadcast'' =
                   Some (JObj (AList.update ''owner'' (JStr (clientId s)) kvs)))) \<and>
     (updates s' = updates s \<or> (\<exists>d. updates s' = updates s @ [(rid, d)]))"

section \<open>Example scenes\<close>

text \<open>
  Concrete scenes for the examples below. Handle 0 is the scene; the engine is set up by
  \<open>init\<close> for client \<open>client-A\<close>, either with the configuration
  \<open>{channel: 'room1', interval: 20}\<close> or with none.
\<close>

definition exConfig :: config where
  "exConfig = \<lparr>cfg_channel = ''room1'', cfg_interval = 20\<rparr>"

definition exLive :: "(handle \<Rightarrow> element) \<Rightarrow> handle \<Rightarrow> system" where
  "exLive es n = init 0 es n ''client-A'' [] (Some exConfig)"

definition exInert :: "(handle \<Rightarrow> element) \<Rightarrow> handle \<Rightarrow> system" where
  "exInert es n = init 0 es n ''client-A'' [] None"

definition exPosition :: jsval where
  "exPosition = JObj [(''x'', JNum 1), (''y'', JNum 2), (''z'', JNum 3)]"

text \<open>A box under the scene that broadcasts its position, shared or not, with an owner.\<close>

definition exBox :: "bool \<Rightarrow> string \<Rightarrow> element" where
  "exBox sh ow =
     \<lparr>attrs = [''id'' \<mapsto> JStr ''box1'', ''position'' \<mapsto> exPosition,
               ''firebase-broadcast'' \<mapsto>
                 JObj [(''components'', JArr [JStr ''position'']),
                       (''shared'', JBool sh), (''owner'', JStr ow)]],
      parentNode = Some 0, firebaseBroadcastOnce = False\<rparr>"

definition exBoxScene :: "bool \<Rightarrow> string \<Rightarrow> system" where
  "exBoxScene sh ow = snd (registerBroadcast 1 (exLive ((\<lambda>h. new_element)(1 := exBox sh ow)) 2))"

text \<open>
  A child that broadcasts its position, and its colour once, below a parent element
  whose \<open>firebase-broadcast\<close> attribute is given.
\<close>

definition exChild :: element where
  "exChild =
     \<lparr>attrs = [''id'' \<mapsto> JStr ''child'', ''position'' \<mapsto> exPosition, ''color'' \<mapsto> JStr ''red'',
               ''firebase-broadcast'' \<mapsto>
                 JObj [(''components'', JArr [JStr ''position'']),
                       (''componentsOnce'', JArr [JStr ''color''])]],
      parentNode = Some 1, firebaseBroadcastOnce = False\<rparr>"

definition exParent :: "jsval option \<Rightarrow> element" where
  "exParent b =
     \<lparr>attrs = (\<lambda>k. if k = ''id'' then Some (JStr ''parent'')
                    else if k = ''position'' then Some exPosition
                    else if k = ''firebase-broadcast'' then b else None),
      parentNode = Some 0, firebaseBroadcastOnce = False\<rparr>"

definition exFamily :: "jsval option \<Rightarrow> system" where
  "exFamily b =
     snd (registerBroadcast 2 (exLive ((\<lambda>h. new_element)(1 := exParent b, 2 := exChild)) 3))"

text \<open>Records as the remote store delivers them.\<close>

definition exRecord :: jsobj where
  "exRecord = [(''position'', exPosition), (''firebase-broadcast'', JObj [(''shared'', JBool False)])]"

definition exBareRecord :: jsobj where
  "exBareRecord = [(''position'', exPosition)]"

definition exEmpty :: system where
  "exEmpty = exLive (\<lambda>h. new_element) 1"

definition exReplica :: system where
  "exReplica = snd (handleEntityAdded ''e1'' exRecord exEmpty)"

text \<open>
  A parent whose broadcast component lists no components: line 243 never registers it,
  and its \<open>id\<close> stays the schema's default, the empty string.
\<close>

definition exIdleParent :: jsval where
  "exIdleParent = JObj [(''components'', JArr []), (''id'', JStr [])]"

text \<open>
  The child's first tick while the parent has no broadcast component yet; then the
  parent's component attaches and registers, and a second tick follows.
\<close>

definition exLateParent :: system where
  "exLateParent =
     snd (registerBroadcast 1
            (el_setAttribute 1 ''firebase-broadcast''
               (JObj [(''components'', JArr [JStr ''position''])])
               (snd (tick 100 (exFamily None)))))"

text \<open>
  The ticks of a run that get past the guards of lines 155 and 163 and execute the
  broadcast pass.
\<close>

fun passes :: "rat list \<Rightarrow> system \<Rightarrow> rat list" where
  "passes [] s = []"
| "passes (t # ts) s =
     (if firebase s \<and> \<not> tooEarly t s then [t] else []) @ passes ts (snd (tick t s))"

text \<open>The box scene after a first broadcast pass at time 100.\<close>

definition exTicked :: system where
  "exTicked = snd (tick 100 (exBoxScene False []))"

text \<open>
  The state and the record after the ownership step of \<open>broadcastEntity\<close> (lines 173
  to 183), for an element with broadcast data \<open>bd\<close>.
\<close>

definition claimStep :: "handle \<Rightarrow> broadcast_data \<Rightarrow> system \<Rightarrow> system" where
  "claimStep el bd s = (if shared bd \<and> owner bd = [] then claimed el s else s)"

definition claimData :: "handle \<Rightarrow> broadcast_data \<Rightarrow> system \<Rightarrow> jsobj" where
  "claimData el bd s =
     [(''id'', el_getAttribute s el ''id''),
      (''firebase-broadcast'',
         JObj ((''shared'', JBool (shared bd)) #
               (if shared bd \<and> owner bd = [] then [(''owner'', JStr (clientId s))] else [])))]"

text \<open>
  The record after the parent step (lines 195 to 199), or \<open>None\<close> when the callback
  returns there to wait for the parent.
\<close>

definition parentData :: "system \<Rightarrow> handle \<Rightarrow> jsobj \<Rightarrow> jsobj option" where
  "parentData s el data =
     (case parentNode (els s el) of
        None \<Rightarrow> Some data
      | Some p \<Rightarrow>
          if p = sceneEl s then Some data
          else if js_truthy (el_getAttribute s p ''firebase-broadcast'')
          then Some (AList.update ''parentId''
                       (js_prop (el_getAttribute s p ''firebase-broadcast'') ''id'') data)
          else None)"

text \<open>A parent whose broadcast component has registered and carries a remote id.\<close>

definition exRegisteredParent :: jsval where
  "exRegisteredParent = JObj [(''components'', JArr [JStr ''position'']), (''id'', JStr ''-K7'')]"

text \<open>
  The box scene of an engine whose configuration names no interval, so that line 40
  sets the default of 10.
\<close>

definition exDefaultScene :: system where
  "exDefaultScene =
     snd (registerBroadcast 1
            (init 0 ((\<lambda>h. new_element)(1 := exBox False [])) 2 ''client-A'' []
               (Some \<lparr>cfg_channel = ''room1'', cfg_interval = 0\<rparr>)))"

text \<open>The same scene after a first broadcast pass at the double \<open>0.1\<close>.\<close>

definition exDefaultTicked :: system where
  "exDefaultTicked = snd (tick (nearest_double (1 / 10)) exDefaultScene)"




text \<open>
  The record of a shared entity whose \<open>id\<close> no element of the receiving scene has, and
  the state after its first delivery.
\<close>

definition exSharedRecord :: jsobj where
  "exSharedRecord =
     [(''firebase-broadcast'', JObj [(''shared'', JBool True), (''owner'', JStr ''client-B'')]),
      (''id'', JStr ''box1''), (''position'', exPosition)]"

definition exMissed :: system where
  "exMissed = snd (handleEntityAdded ''-K0'' exSharedRecord exEmpty)"

section \<open>What one callback of the tick changes\<close>

lemma buildAndUpdate_cases:
  "buildAndUpdate rid el comps data s = (r, s') \<Longrightarrow>
     (\<exists>e. r = Threw e \<and> s' = s) \<or> (\<exists>d. r = Returned \<and> getData s el comps data = Inr d \<and> s' = s\<lparr>updates := updates s @ [(rid, d)]\<rparr>)"
  by (auto simp: buildAndUpdate_def split: sum.splits)

lemma linkParent_cases:
  "linkParent rid el comps data s = (r, s') \<Longrightarrow>
     s' = s \<or> (\<exists>d. r = Returned \<and> s' = s\<lparr>updates := updates s @ [(rid, d)]\<rparr>)"
  by (auto simp: linkParent_def Let_def split: option.splits if_splits sum.splits dest!: buildAndUpdate_cases)

lemma broadcastEntity_effect:
  assumes "broadcastEntity rid s = (r, s')"
  shows "s' = s \<or>
    (\<exists>el bd. map_of (broadcastingEntities s) rid = Some el \<and> getBroadcastData s el = Some bd \<and>
       (\<exists>s1. (s1 = s \<and> \<not> (shared bd \<and> owner bd = []) \<or> s1 = claimed el s \<and> shared bd \<and> owner bd = [])
           \<and> (\<exists>s2. (s2 = s1 \<or> s2 = flagged el s1) \<and>
                (s' = s2 \<or> (\<exists>d. s' = s2\<lparr>updates := updates s2 @ [(rid, d)]\<rparr>)))))"
  using assms
  apply (simp add: broadcastEntity_def claimOwner_def addOnce_def claimed_def flagged_def
      split: option.splits if_splits prod.splits)
  apply (auto dest!: linkParent_cases)
  done

lemma shared_is_obj:
  "shared (parse_broadcast v) \<Longrightarrow> \<exists>kvs. v = JObj kvs"
  by (cases v) (simp_all add: parse_broadcast_def)

lemma stepped_refl: "stepped rid s s"
  by (simp add: stepped_def)

lemma stepped_claimed:
  "getBroadcastData s el = Some bd \<Longrightarrow> shared bd \<Longrightarrow> owner bd = [] \<Longrightarrow>
   map_of (broadcastingEntities s) rid = Some el \<Longrightarrow> stepped rid s (claimed el s)"
  apply (clarsimp simp: getBroadcastData_def)
  apply (frule shared_is_obj)
  apply (auto simp: stepped_def claimed_def el_setProperty_def el_setAttribute_def
      el_getComputedAttribute_def)
  done

lemma stepped_flagged: "stepped rid s s1 \<Longrightarrow> stepped rid s (flagged el s1)"
  by (simp add: stepped_def flagged_def)

lemma stepped_update:
  "stepped rid s s2 \<Longrightarrow> updates s2 = updates s \<Longrightarrow>
   stepped rid s (s2\<lparr>updates := updates s2 @ [(rid, d)]\<rparr>)"
  by (simp add: stepped_def)

lemma updates_claimed: "updates (claimed el s) = updates s"
  by (simp add: claimed_def el_setProperty_def el_setAttribute_def)

lemma updates_flagged: "updates (flagged el s) = updates s"
  by (simp add: flagged_def)

lemma broadcastEntity_stepped:
  assumes "broadcastEntity rid s = (r, s')"
  shows "stepped rid s s'"
  using broadcastEntity_effect [OF assms]
  by (auto intro!: stepped_refl stepped_claimed stepped_flagged stepped_update
        simp: updates_claimed updates_flagged)

lemma parse_update_owner:
  "parse_broadcast (JObj (AList.update ''owner'' (JStr c) kvs)) = (parse_broadcast (JObj kvs))\<lparr>owner := c\<rparr>"
  by (simp add: parse_broadcast_def obj_get_def update_conv')

lemma stepped_broadcastData:
  assumes "stepped rid s s'" "getBroadcastData s h = Some bd"
  shows "getBroadcastData s' h = Some bd \<or>
         (shared bd \<and> owner bd = [] \<and> map_of (broadcastingEntities s) rid = Some h \<and>
          getBroadcastData s' h = Some (bd\<lparr>owner := clientId s\<rparr>))"
proof -
  from assms(1) have
    "attrs (els s' h) ''firebase-broadcast'' = attrs (els s h) ''firebase-broadcast'' \<or>
          (\<exists>kvs. attrs (els s h) ''firebase-broadcast'' = Some (JObj kvs) \<and>
                 shared (parse_broadcast (JObj kvs)) \<and> owner (parse_broadcast (JObj kvs)) = [] \<and>
                 map_of (broadcastingEntities s) rid = Some h \<and>
                 attrs (els s' h) ''firebase-broadcast'' =
                   Some (JObj (AList.update ''owner'' (JStr (clientId s)) kvs)))"
    unfolding stepped_def by blast
  with assms(2) show ?thesis
    by (auto simp: getBroadcastData_def parse_update_owner)
qed

lemma stepped_ownerOf:
  assumes "stepped rid s s'"
  shows "ownerOf s' h = ownerOf s h \<or>
         (ownerOf s h = Some [] \<and> ownerOf s' h = Some (clientId s) \<and>
          map_of (broadcastingEntities s) rid = Some h)"
proof (cases "getBroadcastData s h")
  case None
  then have "attrs (els s h) ''firebase-broadcast'' = None"
    by (simp add: getBroadcastData_def)
  moreover from assms have
    "attrs (els s' h) ''firebase-broadcast'' = attrs (els s h) ''firebase-broadcast'' \<or>
     (\<exists>kvs. attrs (els s h) ''firebase-broadcast'' = Some (JObj kvs))"
    unfolding stepped_def by blast
  ultimately have "getBroadcastData s' h = None"
    by (auto simp: getBroadcastData_def)
  with None show ?thesis by (simp add: ownerOf_def)
next
  case (Some bd)
  from stepped_broadcastData [OF assms Some] Some show ?thesis
    by (auto simp: ownerOf_def)
qed

lemma forEach_broadcast_inv:
  assumes "forEach broadcastEntity ks s = (r, s')" and "I s"
    and "\<And>k s r s'. k \<in> set ks \<Longrightarrow> I s \<Longrightarrow> broadcastEntity k s = (r, s') \<Longrightarrow> I s'"
  shows "I s'"
  using assms
proof (induction ks arbitrary: s)
  case Nil
  then show ?case by simp
next
  case (Cons k ks)
  obtain r1 s1 where st: "broadcastEntity k s = (r1, s1)" by (cases "broadcastEntity k s")
  have I1: "I s1" using Cons.prems(2,3) st by (meson list.set_intros(1))
  show ?case
  proof (cases r1)
    case Returned
    with Cons.prems(1) st have "forEach broadcastEntity ks s1 = (r, s')" by simp
    then show ?thesis using Cons.IH [of s1] I1 Cons.prems(3) by (meson list.set_intros(2))
  next
    case (Threw e)
    with Cons.prems(1) st have "s' = s1" by simp
    with I1 show ?thesis by simp
  qed
qed

lemma tick_inv:
  assumes "tick t s = (r, s')" and "I s" and "I s \<Longrightarrow> I (s\<lparr>time := Some t\<rparr>)"
    and "\<And>k s r s'. I s \<Longrightarrow> broadcastEntity k s = (r, s') \<Longrightarrow> I s'"
  shows "I s'"
proof (cases "\<not> firebase s \<or> tooEarly t s")
  case True
  with assms(1) have "s' = s" by (auto simp: tick_def split: if_splits)
  with assms(2) show ?thesis by simp
next
  case False
  with assms(1) have
    "forEach broadcastEntity (Object_keys (broadcastingEntities s)) (s\<lparr>time := Some t\<rparr>) = (r, s')"
    by (simp add: tick_def)
  then show ?thesis
    by (rule forEach_broadcast_inv) (use assms(2,3,4) in blast)+
qed

lemma ticks_inv:
  assumes "I s" and "\<And>s t. I s \<Longrightarrow> I (s\<lparr>time := Some t\<rparr>)"
    and "\<And>k s r s'. I s \<Longrightarrow> broadcastEntity k s = (r, s') \<Longrightarrow> I s'"
  shows "I (ticks ts s)"
  using assms(1)
proof (induction ts arbitrary: s)
  case Nil
  then show ?case by simp
next
  case (Cons t ts)
  have "I (snd (tick t s))"
    by (rule tick_inv [where I = I and t = t and s = s and r = "fst (tick t s)"])
       (use Cons.prems assms(2,3) in auto)
  then show ?case using Cons.IH by simp
qed


lemma js_get_prop: "js_get v k = Inr x \<Longrightarrow> x = js_prop v k"
  by (cases v) auto

lemma linkParent_record:
  assumes "linkParent rid el comps data s = (r, s')"
  shows "s' = s \<or>
    (\<exists>d data'. r = Returned \<and> s' = s\<lparr>updates := updates s @ [(rid, d)]\<rparr> \<and>
        getData s el comps data' = Inr d \<and> parentData s el data = Some data')"
  using assms
  by (auto simp: linkParent_def parentData_def Let_def split: option.splits if_splits sum.splits
      dest!: buildAndUpdate_cases js_get_prop)

lemma getData_other:
  "getData s el cs data = Inr d \<Longrightarrow> k \<notin> set cs \<Longrightarrow> map_of d k = map_of data k"
  by (induction cs arbitrary: data) (auto simp: update_conv' split: sum.splits)

lemma getData_written:
  "getData s el cs data = Inr d \<Longrightarrow> k \<in> set cs \<Longrightarrow>
   \<exists>v. getComputedAttribute s el k = Inr v \<and> map_of d k = Some v"
proof (induction cs arbitrary: data)
  case Nil
  then show ?case by simp
next
  case (Cons c cs)
  from Cons.prems(1) obtain v where v: "getComputedAttribute s el c = Inr v"
    and rest: "getData s el cs (AList.update c v data) = Inr d"
    by (auto split: sum.splits)
  show ?case
  proof (cases "k \<in> set cs")
    case True
    with Cons.IH rest show ?thesis by blast
  next
    case False
    with Cons.prems(2) have "k = c" by simp
    moreover from getData_other [OF rest False] have "map_of d k = map_of (AList.update c v data) k" .
    ultimately show ?thesis using v by (simp add: update_conv')
  qed
qed

lemma foreign_owner_returns:
  "map_of (broadcastingEntities s) rid = Some el \<Longrightarrow> getBroadcastData s el = Some bd \<Longrightarrow>
   shared bd \<Longrightarrow> owner bd \<noteq> [] \<Longrightarrow> owner bd \<noteq> clientId s \<Longrightarrow>
   broadcastEntity rid s = (Returned, s)"
  by (simp add: broadcastEntity_def claimOwner_def)

lemma getBroadcastData_claimed:
  "getBroadcastData s el = Some bd \<Longrightarrow> shared bd \<Longrightarrow>
   getBroadcastData (claimed el s) el = Some (bd\<lparr>owner := clientId s\<rparr>)"
  apply (clarsimp simp: getBroadcastData_def)
  apply (frule shared_is_obj)
  apply (auto simp: claimed_def el_setProperty_def el_setAttribute_def
      el_getComputedAttribute_def parse_update_owner)
  done

lemma linkParent_record_from:
  assumes "linkParent rid el comps data s2 = (r, s')"
    and "s2 = s1 \<or> s2 = flagged el s1"
    and "set comps \<subseteq> C"
  shows "\<exists>s2. (s2 = s1 \<or> s2 = flagged el s1) \<and>
           (s' = s2 \<or>
            (\<exists>comps data' d.
               r = Returned \<and> s' = s2\<lparr>updates := updates s2 @ [(rid, d)]\<rparr> \<and>
               set comps \<subseteq> C \<and>
               getData s2 el comps data' = Inr d \<and> parentData s2 el data = Some data'))"
  apply (rule exI [of _ s2])
  apply (rule conjI)
   apply (rule assms(2))
  using linkParent_record [OF assms(1)] assms(3)
  apply blast
  done

lemma broadcastEntity_record:
  assumes "broadcastEntity rid s = (r, s')"
    and "map_of (broadcastingEntities s) rid = Some el"
    and "getBroadcastData s el = Some bd"
  shows "\<exists>s2. (s2 = claimStep el bd s \<or> s2 = flagged el (claimStep el bd s)) \<and>
           (s' = s2 \<or>
            (\<exists>comps data' d.
               r = Returned \<and> s' = s2\<lparr>updates := updates s2 @ [(rid, d)]\<rparr> \<and>
               set comps \<subseteq> set (components bd) \<union> set (componentsOnce bd) \<and>
               getData s2 el comps data' = Inr d \<and>
               parentData s2 el (claimData el bd s) = Some data'))"
proof (cases "shared bd \<and> owner bd = []")
  case True
  let ?s1 = "claimed el s"
  let ?bd1 = "bd\<lparr>owner := clientId s\<rparr>"
  have cid: "clientId ?s1 = clientId s"
    by (simp add: claimed_def el_setProperty_def el_setAttribute_def)
  obtain comps s2 where ao: "addOnce el ?bd1 ?s1 = (comps, s2)" by (cases "addOnce el ?bd1 ?s1")
  have s2: "s2 = ?s1 \<or> s2 = flagged el ?s1" and cs: "set comps \<subseteq> set (components bd) \<union> set (componentsOnce bd)"
    using ao by (auto simp: addOnce_def flagged_def split: if_splits)
  have "broadcastEntity rid s = linkParent rid el comps (claimData el bd s) s2"
    using assms(2,3) True ao [unfolded claimed_def] cid [unfolded claimed_def]
    by (simp add: broadcastEntity_def claimOwner_def claimData_def obj_get_def)
  with assms(1) have "linkParent rid el comps (claimData el bd s) s2 = (r, s')" by simp
  moreover have "claimStep el bd s = ?s1" using True by (simp add: claimStep_def)
  ultimately show ?thesis using linkParent_record_from [OF _ s2 cs] by simp
next
  case False
  show ?thesis
  proof (cases "shared bd \<and> owner bd \<noteq> clientId s")
    case True
    with False assms have "s' = s"
      by (auto simp: broadcastEntity_def claimOwner_def)
    moreover have "claimStep el bd s = s" using False by (auto simp: claimStep_def)
    ultimately show ?thesis by (intro exI [of _ s]) simp
  next
    case proceeds: False
    obtain comps s2 where ao: "addOnce el bd s = (comps, s2)" by (cases "addOnce el bd s")
    have s2: "s2 = s \<or> s2 = flagged el s" and cs: "set comps \<subseteq> set (components bd) \<union> set (componentsOnce bd)"
      using ao by (auto simp: addOnce_def flagged_def split: if_splits)
    have "broadcastEntity rid s = linkParent rid el comps (claimData el bd s) s2"
      using assms(2,3) False proceeds ao
      by (auto simp: broadcastEntity_def claimOwner_def claimData_def)
    with assms(1) have "linkParent rid el comps (claimData el bd s) s2 = (r, s')" by simp
    moreover have "claimStep el bd s = s" using False by (auto simp: claimStep_def)
    ultimately show ?thesis using linkParent_record_from [OF _ s2 cs] by simp
  qed
qed

section \<open>Ownership\<close>

lemma els_claimed:
  "els (claimed el s) h =
     (if h = el
      then (els s el)\<lparr>attrs := (attrs (els s el))(''firebase-broadcast'' \<mapsto>
              js_set (el_getComputedAttribute s el ''firebase-broadcast'') ''owner'' (JStr (clientId s)))\<rparr>
      else els s h)"
  by (simp add: claimed_def el_setProperty_def el_setAttribute_def)

lemma attrs_flagged: "attrs (els (flagged el s) h) = attrs (els s h)"
  by (simp add: flagged_def)

lemma getBroadcastData_flagged: "getBroadcastData (flagged el s) h = getBroadcastData s h"
  by (simp add: getBroadcastData_def attrs_flagged)

lemma getBroadcastData_updates: "getBroadcastData (s\<lparr>updates := u\<rparr>) h = getBroadcastData s h"
  by (simp add: getBroadcastData_def)

lemma getBroadcastData_time: "getBroadcastData (s\<lparr>time := u\<rparr>) h = getBroadcastData s h"
  by (simp add: getBroadcastData_def)

lemma claim_sets_owner:
  assumes "map_of (broadcastingEntities s) rid = Some el" "getBroadcastData s el = Some bd"
    "shared bd" "owner bd = []" "broadcastEntity rid s = (r, s')"
  shows "ownerOf s' el = Some (clientId s)"
proof -
  have cs: "claimStep el bd s = claimed el s" using assms(3,4) by (simp add: claimStep_def)
  have "getBroadcastData (claimed el s) el = Some (bd\<lparr>owner := clientId s\<rparr>)"
    using assms(2,3) by (rule getBroadcastData_claimed)
  with broadcastEntity_record [OF assms(5,1,2)] cs show ?thesis
    by (auto simp: ownerOf_def getBroadcastData_flagged getBroadcastData_updates)
qed

lemma parentData_cases:
  "parentData s el data = Some data' \<Longrightarrow>
   data' = data \<or> (\<exists>v. data' = AList.update ''parentId'' v data)"
  by (auto simp: parentData_def split: option.splits if_splits)

lemma claim_record_owner:
  assumes "map_of (broadcastingEntities s) rid = Some el" "getBroadcastData s el = Some bd"
    "shared bd" "owner bd = []" "broadcastEntity rid s = (r, s')" "u \<in> set (issued s s')"
  shows "fst u = rid \<and> js_prop (obj_get (snd u) ''firebase-broadcast'') ''owner'' = JStr (clientId s)"
proof -
  have cs: "claimStep el bd s = claimed el s" using assms(3,4) by (simp add: claimStep_def)
  from assms(2,3) obtain kvs where kvs: "attrs (els s el) ''firebase-broadcast'' = Some (JObj kvs)"
    by (auto simp: getBroadcastData_def dest: shared_is_obj)
  from broadcastEntity_record [OF assms(5,1,2)] obtain s2 where
    s2: "s2 = claimed el s \<or> s2 = flagged el (claimed el s)" and
    res: "s' = s2 \<or> (\<exists>comps data' d.
               r = Returned \<and> s' = s2\<lparr>updates := updates s2 @ [(rid, d)]\<rparr> \<and>
               set comps \<subseteq> set (components bd) \<union> set (componentsOnce bd) \<and>
               getData s2 el comps data' = Inr d \<and>
               parentData s2 el (claimData el bd s) = Some data')"
    unfolding cs by blast
  have up: "updates s2 = updates s" using s2 by (auto simp: updates_claimed updates_flagged)
  have stored: "el_getComputedAttribute s2 el ''firebase-broadcast'' =
                  JObj (AList.update ''owner'' (JStr (clientId s)) kvs)"
    using s2 kvs by (auto simp: el_getComputedAttribute_def els_claimed attrs_flagged)
  from res show ?thesis
  proof
    assume "s' = s2"
    with up assms(6) show ?thesis by (simp add: issued_def)
  next
    assume "\<exists>comps data' d.
               r = Returned \<and> s' = s2\<lparr>updates := updates s2 @ [(rid, d)]\<rparr> \<and>
               set comps \<subseteq> set (components bd) \<union> set (componentsOnce bd) \<and>
               getData s2 el comps data' = Inr d \<and>
               parentData s2 el (claimData el bd s) = Some data'"
    then obtain comps data' d where s': "s' = s2\<lparr>updates := updates s2 @ [(rid, d)]\<rparr>"
      and gd: "getData s2 el comps data' = Inr d"
      and pd: "parentData s2 el (claimData el bd s) = Some data'"
      by blast
    from s' up assms(6) have u: "u = (rid, d)" by (simp add: issued_def)
    have base: "map_of data' ''firebase-broadcast'' =
                  Some (JObj [(''shared'', JBool True), (''owner'', JStr (clientId s))])"
      using parentData_cases [OF pd] assms(3,4) by (auto simp: claimData_def update_conv')
    have "js_prop (obj_get d ''firebase-broadcast'') ''owner'' = JStr (clientId s)"
    proof (cases "''firebase-broadcast'' \<in> set comps")
      case True
      from getData_written [OF gd True] stored show ?thesis
        by (auto simp: getComputedAttribute_def obj_get_def update_conv')
    next
      case False
      from getData_other [OF gd False] base show ?thesis
        by (simp add: obj_get_def)
    qed
    with u show ?thesis by simp
  qed
qed


lemma ownerOf_time: "ownerOf (s\<lparr>time := u\<rparr>) h = ownerOf s h"
  by (simp add: ownerOf_def getBroadcastData_time)

lemma owner_kept_step:
  assumes "ownerOf s el = Some (clientId s)" "broadcastEntity k s = (r, s')"
  shows "ownerOf s' el = Some (clientId s') \<and> clientId s' = clientId s"
proof -
  have st: "stepped k s s'" using assms(2) by (rule broadcastEntity_stepped)
  then have "clientId s' = clientId s" by (simp add: stepped_def)
  with stepped_ownerOf [OF st, of el] assms(1) show ?thesis by auto
qed

lemma owner_kept_ticks:
  assumes "ownerOf s el = Some (clientId s)"
  shows "ownerOf (ticks ts s) el = Some (clientId s)"
proof -
  let ?I = "\<lambda>s1. ownerOf s1 el = Some (clientId s1) \<and> clientId s1 = clientId s"
  have "?I (ticks ts s)"
  proof (rule ticks_inv [where I = ?I])
    show "?I s" using assms by simp
  next
    fix s1 t assume "?I s1"
    then show "?I (s1\<lparr>time := Some t\<rparr>)" by (simp add: ownerOf_time)
  next
    fix k s1 r s' assume "?I s1" "broadcastEntity k s1 = (r, s')"
    then show "?I s'" using owner_kept_step [of s1 el k r s'] by simp
  qed
  then show ?thesis by simp
qed

lemma forEach_broadcast_reach:
  assumes "forEach broadcastEntity ks s = (Returned, s')" and "k \<in> set ks" and "I s"
    and "\<And>k' s r s'. I s \<Longrightarrow> broadcastEntity k' s = (r, s') \<Longrightarrow> I s'"
    and "\<And>s r s'. I s \<Longrightarrow> broadcastEntity k s = (r, s') \<Longrightarrow> Q s'"
    and "\<And>k' s r s'. Q s \<Longrightarrow> broadcastEntity k' s = (r, s') \<Longrightarrow> Q s'"
  shows "Q s'"
  using assms(1,2,3)
proof (induction ks arbitrary: s)
  case Nil
  then show ?case by simp
next
  case (Cons k' ks)
  obtain r1 s1 where st: "broadcastEntity k' s = (r1, s1)" by (cases "broadcastEntity k' s")
  with Cons.prems(1) have r1: "r1 = Returned" and rest: "forEach broadcastEntity ks s1 = (Returned, s')"
    by (cases r1; simp)+
  show ?case
  proof (cases "k' = k")
    case True
    with st Cons.prems(3) assms(5) have "Q s1" by blast
    with rest show ?thesis
      by (rule forEach_broadcast_inv [where I = Q]) (use assms(6) in blast)
  next
    case False
    with Cons.prems(2) have "k \<in> set ks" by simp
    moreover have "I s1" using st Cons.prems(3) assms(4) by blast
    ultimately show ?thesis using Cons.IH rest by blast
  qed
qed

lemma map_of_keys: "map_of xs k = Some v \<Longrightarrow> k \<in> set (Object_keys xs)"
  by (auto simp: Object_keys_def dest: map_of_SomeD intro: rev_image_eqI)

lemma claim_by_tick:
  assumes tab: "map_of (broadcastingEntities s) rid = Some el"
    and bd: "getBroadcastData s el = Some bd" and sh: "shared bd" and ow: "owner bd = []"
    and live: "firebase s" "\<not> tooEarly t s" and fin: "tick t s = (Returned, s')"
  shows "ownerOf s' el = Some (clientId s)"
proof -
  let ?c = "clientId s"
  let ?I = "\<lambda>s1. clientId s1 = ?c \<and> map_of (broadcastingEntities s1) rid = Some el \<and>
                 (\<exists>b. getBroadcastData s1 el = Some b \<and> shared b \<and> (owner b = [] \<or> owner b = ?c))"
  let ?Q = "\<lambda>s1. ownerOf s1 el = Some (clientId s1) \<and> clientId s1 = ?c"
  from live fin have fe:
    "forEach broadcastEntity (Object_keys (broadcastingEntities s)) (s\<lparr>time := Some t\<rparr>) = (Returned, s')"
    by (simp add: tick_def)
  have "?Q s'"
  proof (rule forEach_broadcast_reach [OF fe, where k = rid and I = ?I and Q = ?Q])
    show "rid \<in> set (Object_keys (broadcastingEntities s))" using tab by (rule map_of_keys)
  next
    show "?I (s\<lparr>time := Some t\<rparr>)" using tab bd sh ow by (simp add: getBroadcastData_time)
  next
    fix k' s1 r s2 assume I: "?I s1" and be: "broadcastEntity k' s1 = (r, s2)"
    then obtain b where b: "getBroadcastData s1 el = Some b" "shared b" "owner b = [] \<or> owner b = ?c"
      by blast
    have st: "stepped k' s1 s2" using be by (rule broadcastEntity_stepped)
    from stepped_broadcastData [OF st b(1)] b(2,3) I st show "?I s2"
      by (auto simp: stepped_def)
  next
    fix s1 r s2 assume I: "?I s1" and be: "broadcastEntity rid s1 = (r, s2)"
    then obtain b where b: "getBroadcastData s1 el = Some b" "shared b" "owner b = [] \<or> owner b = ?c"
      by blast
    have cid: "clientId s2 = clientId s1"
      using broadcastEntity_stepped [OF be] by (simp add: stepped_def)
    from b(3) show "?Q s2"
    proof
      assume "owner b = []"
      with claim_sets_owner [of s1 rid el b r s2] I b be cid show ?thesis by simp
    next
      assume "owner b = ?c"
      with owner_kept_step [of s1 el rid r s2] I b be show ?thesis by (auto simp: ownerOf_def)
    qed
  next
    fix k' s1 r s2 assume "?Q s1" "broadcastEntity k' s1 = (r, s2)"
    then show "?Q s2" using owner_kept_step [of s1 el k' r s2] by simp
  qed
  then show ?thesis by simp
qed

lemma foreign_owner_silent:
  assumes tab: "map_of (broadcastingEntities s) rid = Some el"
    and bd: "getBroadcastData s el = Some bd" and sh: "shared bd"
    and ow: "owner bd \<noteq> []" "owner bd \<noteq> clientId s"
  shows "\<forall>u\<in>set (issued s (snd (tick t s))). fst u \<noteq> rid"
proof -
  let ?I = "\<lambda>s1. clientId s1 = clientId s \<and> map_of (broadcastingEntities s1) rid = Some el \<and>
                 getBroadcastData s1 el = Some bd \<and>
                 (\<exists>new. updates s1 = updates s @ new \<and> (\<forall>u\<in>set new. fst u \<noteq> rid))"
  have "?I (snd (tick t s))"
  proof (rule tick_inv [where t = t and s = s and r = "fst (tick t s)" and I = ?I])
    show "tick t s = (fst (tick t s), snd (tick t s))" by simp
  next
    show "?I s" using tab bd by simp
  next
    show "?I (s\<lparr>time := Some t\<rparr>)" using tab bd by (simp add: getBroadcastData_time)
  next
    fix k s1 r s2 assume I: "?I s1" and be: "broadcastEntity k s1 = (r, s2)"
    show "?I s2"
    proof (cases "k = rid")
      case True
      with foreign_owner_returns [of s1 rid el bd] I sh ow be have "s2 = s1" by simp
      with I show ?thesis by simp
    next
      case False
      have st: "stepped k s1 s2" using be by (rule broadcastEntity_stepped)
      from stepped_broadcastData [OF st, of el bd] I ow have "getBroadcastData s2 el = Some bd"
        by auto
      moreover from st have "updates s2 = updates s1 \<or> (\<exists>d. updates s2 = updates s1 @ [(k, d)])"
        by (simp add: stepped_def)
      with I False have "\<exists>new. updates s2 = updates s @ new \<and> (\<forall>u\<in>set new. fst u \<noteq> rid)"
        by auto
      ultimately show ?thesis using I st by (simp add: stepped_def)
    qed
  qed
  then show ?thesis by (auto simp: issued_def)
qed

section \<open>The parent check\<close>

lemma stepped_parent_attr:
  assumes "stepped k s s'"
  shows "js_truthy (el_getAttribute s' h ''firebase-broadcast'') =
           js_truthy (el_getAttribute s h ''firebase-broadcast'') \<and>
         js_prop (el_getAttribute s' h ''firebase-broadcast'') ''id'' =
           js_prop (el_getAttribute s h ''firebase-broadcast'') ''id''"
proof -
  from assms have
    "attrs (els s' h) ''firebase-broadcast'' = attrs (els s h) ''firebase-broadcast'' \<or>
     (\<exists>kvs. attrs (els s h) ''firebase-broadcast'' = Some (JObj kvs) \<and>
            attrs (els s' h) ''firebase-broadcast'' =
              Some (JObj (AList.update ''owner'' (JStr (clientId s)) kvs)))"
    unfolding stepped_def by blast
  then show ?thesis
    by (auto simp: el_getAttribute_def obj_get_def update_conv')
qed

lemma claimStep_stepped:
  assumes "map_of (broadcastingEntities s) rid = Some el" "getBroadcastData s el = Some bd"
    and "s2 = claimStep el bd s \<or> s2 = flagged el (claimStep el bd s)"
  shows "stepped rid s s2 \<and> updates s2 = updates s"
proof -
  have "stepped rid s (claimStep el bd s)"
    using assms(1,2) by (auto simp: claimStep_def intro: stepped_refl stepped_claimed)
  moreover have "updates (claimStep el bd s) = updates s"
    by (simp add: claimStep_def updates_claimed)
  ultimately show ?thesis using assms(3)
    by (auto intro: stepped_flagged simp: updates_flagged)
qed

lemma parent_waits:
  assumes tab: "map_of (broadcastingEntities s) rid = Some el"
    and par: "parentNode (els s el) = Some p" "p \<noteq> sceneEl s"
    and no: "\<not> js_truthy (el_getAttribute s p ''firebase-broadcast'')"
    and be: "broadcastEntity rid s = (r, s')"
  shows "updates s' = updates s"
proof (cases "getBroadcastData s el")
  case None
  with tab be show ?thesis by (simp add: broadcastEntity_def)
next
  case (Some bd)
  from broadcastEntity_record [OF be tab Some] obtain s2 where
    s2: "s2 = claimStep el bd s \<or> s2 = flagged el (claimStep el bd s)" and
    res: "s' = s2 \<or> (\<exists>comps data' d.
               r = Returned \<and> s' = s2\<lparr>updates := updates s2 @ [(rid, d)]\<rparr> \<and>
               set comps \<subseteq> set (components bd) \<union> set (componentsOnce bd) \<and>
               getData s2 el comps data' = Inr d \<and>
               parentData s2 el (claimData el bd s) = Some data')"
    by blast
  from claimStep_stepped [OF tab Some s2] have st: "stepped rid s s2" and up: "updates s2 = updates s"
    by simp_all
  from st par have "parentNode (els s2 el) = Some p" "p \<noteq> sceneEl s2"
    by (simp_all add: stepped_def)
  moreover from stepped_parent_attr [OF st, of p] no
  have "\<not> js_truthy (el_getAttribute s2 p ''firebase-broadcast'')" by simp
  ultimately have "parentData s2 el (claimData el bd s) = None"
    by (simp add: parentData_def)
  with res up show ?thesis by auto
qed

lemma parent_record:
  assumes tab: "map_of (broadcastingEntities s) rid = Some el"
    and bd: "getBroadcastData s el = Some bd"
    and par: "parentNode (els s el) = Some p" "p \<noteq> sceneEl s"
    and nm: "''parentId'' \<notin> set (components bd) \<union> set (componentsOnce bd)"
    and be: "broadcastEntity rid s = (r, s')" and u: "u \<in> set (issued s s')"
  shows "fst u = rid \<and>
         obj_get (snd u) ''parentId'' = js_prop (el_getAttribute s p ''firebase-broadcast'') ''id''"
proof -
  from broadcastEntity_record [OF be tab bd] obtain s2 where
    s2: "s2 = claimStep el bd s \<or> s2 = flagged el (claimStep el bd s)" and
    res: "s' = s2 \<or> (\<exists>comps data' d.
               r = Returned \<and> s' = s2\<lparr>updates := updates s2 @ [(rid, d)]\<rparr> \<and>
               set comps \<subseteq> set (components bd) \<union> set (componentsOnce bd) \<and>
               getData s2 el comps data' = Inr d \<and>
               parentData s2 el (claimData el bd s) = Some data')"
    by blast
  from claimStep_stepped [OF tab bd s2] have st: "stepped rid s s2" and up: "updates s2 = updates s"
    by simp_all
  from st par have par2: "parentNode (els s2 el) = Some p" "p \<noteq> sceneEl s2"
    by (simp_all add: stepped_def)
  from res show ?thesis
  proof
    assume "s' = s2"
    with up u show ?thesis by (simp add: issued_def)
  next
    assume "\<exists>comps data' d.
               r = Returned \<and> s' = s2\<lparr>updates := updates s2 @ [(rid, d)]\<rparr> \<and>
               set comps \<subseteq> set (components bd) \<union> set (componentsOnce bd) \<and>
               getData s2 el comps data' = Inr d \<and>
               parentData s2 el (claimData el bd s) = Some data'"
    then obtain comps data' d where s': "s' = s2\<lparr>updates := updates s2 @ [(rid, d)]\<rparr>"
      and cs: "set comps \<subseteq> set (components bd) \<union> set (componentsOnce bd)"
      and gd: "getData s2 el comps data' = Inr d"
      and pd: "parentData s2 el (claimData el bd s) = Some data'"
      by blast
    from s' up u have ud: "u = (rid, d)" by (simp add: issued_def)
    from pd par2 have "map_of data' ''parentId'' =
                         Some (js_prop (el_getAttribute s2 p ''firebase-broadcast'') ''id'')"
      by (auto simp: parentData_def update_conv' split: if_splits)
    moreover from cs nm have "''parentId'' \<notin> set comps" by blast
    from getData_other [OF gd this] have "map_of d ''parentId'' = map_of data' ''parentId''" .
    ultimately have "obj_get d ''parentId'' = js_prop (el_getAttribute s2 p ''firebase-broadcast'') ''id''"
      by (simp add: obj_get_def)
    with stepped_parent_attr [OF st, of p] ud show ?thesis by simp
  qed
qed

lemma stepped_issued:
  "stepped k s s' \<Longrightarrow> updates s' = updates s @ issued s s' \<and> (\<forall>u\<in>set (issued s s'). fst u = k)"
  by (auto simp: stepped_def issued_def)

lemma parent_waits_tick:
  assumes tab: "map_of (broadcastingEntities s) rid = Some el"
    and par: "parentNode (els s el) = Some p" "p \<noteq> sceneEl s"
    and no: "\<not> js_truthy (el_getAttribute s p ''firebase-broadcast'')"
  shows "\<forall>u\<in>set (issued s (snd (tick t s))). fst u \<noteq> rid"
proof -
  let ?I = "\<lambda>s1. map_of (broadcastingEntities s1) rid = Some el \<and>
                 parentNode (els s1 el) = Some p \<and> p \<noteq> sceneEl s1 \<and>
                 \<not> js_truthy (el_getAttribute s1 p ''firebase-broadcast'') \<and>
                 (\<exists>new. updates s1 = updates s @ new \<and> (\<forall>u\<in>set new. fst u \<noteq> rid))"
  have "?I (snd (tick t s))"
  proof (rule tick_inv [where t = t and s = s and r = "fst (tick t s)" and I = ?I])
    show "tick t s = (fst (tick t s), snd (tick t s))" by simp
  next
    show "?I s" using tab par no by simp
  next
    show "?I (s\<lparr>time := Some t\<rparr>)" using tab par no by (simp add: el_getAttribute_def)
  next
    fix k s1 r s2 assume I: "?I s1" and be: "broadcastEntity k s1 = (r, s2)"
    have st: "stepped k s1 s2" using be by (rule broadcastEntity_stepped)
    have keep: "map_of (broadcastingEntities s2) rid = Some el \<and>
                 parentNode (els s2 el) = Some p \<and> p \<noteq> sceneEl s2 \<and>
                 \<not> js_truthy (el_getAttribute s2 p ''firebase-broadcast'')"
      using st I stepped_parent_attr [OF st, of p] by (simp add: stepped_def)
    from I obtain new where new: "updates s1 = updates s @ new" "\<forall>u\<in>set new. fst u \<noteq> rid"
      by blast
    have "\<exists>new. updates s2 = updates s @ new \<and> (\<forall>u\<in>set new. fst u \<noteq> rid)"
    proof (cases "k = rid")
      case True
      with parent_waits [of s1 rid el p r s2] I be have "updates s2 = updates s1" by simp
      with new show ?thesis by simp
    next
      case False
      from stepped_issued [OF st] False new show ?thesis
        by (intro exI [of _ "new @ issued s1 s2"]) auto
    qed
    with keep show "?I s2" by simp
  qed
  then show ?thesis by (auto simp: issued_def)
qed

lemma parent_record_tick:
  assumes tab: "map_of (broadcastingEntities s) rid = Some el"
    and bd: "getBroadcastData s el = Some bd"
    and par: "parentNode (els s el) = Some p" "p \<noteq> sceneEl s"
    and nm: "''parentId'' \<notin> set (components bd) \<union> set (componentsOnce bd)"
  shows "\<forall>u\<in>set (issued s (snd (tick t s))).
           fst u = rid \<longrightarrow>
           obj_get (snd u) ''parentId'' = js_prop (el_getAttribute s p ''firebase-broadcast'') ''id''"
proof -
  let ?pid = "js_prop (el_getAttribute s p ''firebase-broadcast'') ''id''"
  let ?I = "\<lambda>s1. map_of (broadcastingEntities s1) rid = Some el \<and>
                 parentNode (els s1 el) = Some p \<and> p \<noteq> sceneEl s1 \<and>
                 js_prop (el_getAttribute s1 p ''firebase-broadcast'') ''id'' = ?pid \<and>
                 (\<exists>b. getBroadcastData s1 el = Some b \<and> components b = components bd \<and>
                      componentsOnce b = componentsOnce bd) \<and>
                 (\<exists>new. updates s1 = updates s @ new \<and>
                        (\<forall>u\<in>set new. fst u = rid \<longrightarrow> obj_get (snd u) ''parentId'' = ?pid))"
  have "?I (snd (tick t s))"
  proof (rule tick_inv [where t = t and s = s and r = "fst (tick t s)" and I = ?I])
    show "tick t s = (fst (tick t s), snd (tick t s))" by simp
  next
    show "?I s" using tab par bd by simp
  next
    show "?I (s\<lparr>time := Some t\<rparr>)" using tab par bd
      by (simp add: el_getAttribute_def getBroadcastData_time)
  next
    fix k s1 r s2 assume I: "?I s1" and be: "broadcastEntity k s1 = (r, s2)"
    have st: "stepped k s1 s2" using be by (rule broadcastEntity_stepped)
    from I obtain b where b: "getBroadcastData s1 el = Some b" "components b = components bd"
      "componentsOnce b = componentsOnce bd" by blast
    have keep: "map_of (broadcastingEntities s2) rid = Some el \<and>
                 parentNode (els s2 el) = Some p \<and> p \<noteq> sceneEl s2 \<and>
                 js_prop (el_getAttribute s2 p ''firebase-broadcast'') ''id'' = ?pid"
      using st I stepped_parent_attr [OF st, of p] by (simp add: stepped_def)
    have bd2: "\<exists>b. getBroadcastData s2 el = Some b \<and> components b = components bd \<and>
                      componentsOnce b = componentsOnce bd"
      using stepped_broadcastData [OF st b(1)] b(2,3) by auto
    from I obtain new where new: "updates s1 = updates s @ new"
      "\<forall>u\<in>set new. fst u = rid \<longrightarrow> obj_get (snd u) ''parentId'' = ?pid"
      by blast
    have "\<forall>u\<in>set (issued s1 s2). fst u = rid \<longrightarrow> obj_get (snd u) ''parentId'' = ?pid"
    proof (cases "k = rid")
      case True
      have "''parentId'' \<notin> set (components b) \<union> set (componentsOnce b)" using nm b by simp
      with parent_record [of s1 rid el b p r s2] I b(1) be True show ?thesis by auto
    next
      case False
      with stepped_issued [OF st] show ?thesis by auto
    qed
    with stepped_issued [OF st] new
    have "\<exists>new. updates s2 = updates s @ new \<and>
                (\<forall>u\<in>set new. fst u = rid \<longrightarrow> obj_get (snd u) ''parentId'' = ?pid)"
      by (intro exI [of _ "new @ issued s1 s2"]) auto
    with keep bd2 show "?I s2" by simp
  qed
  then show ?thesis by (auto simp: issued_def)
qed

section \<open>Added events\<close>

lemma setAttribute_frame:
  "setAttribute el a v s = (r, s') \<Longrightarrow>
   entities s' = entities s \<and> broadcastingEntities s' = broadcastingEntities s \<and>
   nextHandle s' = nextHandle s \<and> sceneEl s' = sceneEl s"
  by (auto simp: setAttribute_def el_setProperty_def el_setAttribute_def
      split: elref.splits list.splits)

lemma forEach_added_frame:
  "forEach (setComponent_added entity data) ks s = (r, s') \<Longrightarrow>
   entities s' = entities s \<and> broadcastingEntities s' = broadcastingEntities s \<and>
   nextHandle s' = nextHandle s \<and> sceneEl s' = sceneEl s"
proof (induction ks arbitrary: s)
  case Nil
  then show ?case by simp
next
  case (Cons k ks)
  obtain r1 s1 where st: "setComponent_added entity data k s = (r1, s1)"
    by (cases "setComponent_added entity data k s")
  then have fr: "entities s1 = entities s \<and> broadcastingEntities s1 = broadcastingEntities s \<and>
                 nextHandle s1 = nextHandle s \<and> sceneEl s1 = sceneEl s"
    by (auto simp: setComponent_added_def split: if_splits dest: setAttribute_frame)
  show ?case
  proof (cases r1)
    case Returned
    with Cons.prems st have "forEach (setComponent_added entity data) ks s1 = (r, s')" by simp
    from Cons.IH [OF this] fr show ?thesis by simp
  next
    case (Threw e)
    with Cons.prems st have "s' = s1" by simp
    with fr show ?thesis by simp
  qed
qed

lemma forEach_added_null:
  assumes "\<And>h. entity \<noteq> El h"
    and "forEach (setComponent_added entity data) ks s = (r, s')"
  shows "s' = s \<and> (r = Returned \<longrightarrow> set ks \<subseteq> {''firebase-broadcast'', ''parentId''})"
  using assms(2)
proof (induction ks)
  case Nil
  then show ?case by simp
next
  case (Cons k ks)
  show ?case
  proof (cases "k = ''firebase-broadcast'' \<or> k = ''parentId''")
    case True
    then have "setComponent_added entity data k s = (Returned, s)"
      by (auto simp: setComponent_added_def)
    with Cons.prems have "forEach (setComponent_added entity data) ks s = (r, s')" by simp
    from Cons.IH [OF this] True show ?thesis by auto
  next
    case False
    then have "setComponent_added entity data k s = (Threw TypeError, s)"
      using assms(1) by (cases entity) (auto simp: setComponent_added_def setAttribute_def)
    with Cons.prems show ?thesis by auto
  qed
qed

lemma attached_entities: "attached (s\<lparr>entities := e\<rparr>) n h = attached s n h"
  by (induction n arbitrary: h) (auto split: option.splits)

lemma querySelector_entities: "querySelector (s\<lparr>entities := e\<rparr>) sel = querySelector s sel"
  by (cases sel) (simp_all add: querySelector_def attached_entities has_id_def)

lemma querySelector_defined: "querySelector s sel \<noteq> Undefined"
  by (auto simp: querySelector_def split: list.splits option.splits)

lemma appendChild_frame:
  "appendChild p c s = (r, s') \<Longrightarrow>
   entities s' = entities s \<and> broadcastingEntities s' = broadcastingEntities s \<and>
   nextHandle s' = nextHandle s"
  by (auto simp: appendChild_def split: if_splits)

lemma known_El: "entities s rid = El h \<Longrightarrow> known s rid"
  by (simp add: known_def)

lemma added_known: "known s rid \<Longrightarrow> handleEntityAdded rid data s = (Returned, s)"
  by (simp add: handleEntityAdded_def)

text \<open>The cases of a first delivery for an unknown identifier.\<close>

lemma added_cases:
  assumes nk: "\<not> known s rid" and res: "handleEntityAdded rid data s = (r, s1)"
  shows "(\<exists>e. js_get (obj_get data ''firebase-broadcast'') ''shared'' = Inl e \<and> r = Threw e \<and> s1 = s) \<or>
         (\<exists>h. entities s1 rid = El h \<and> (\<forall>k. k \<noteq> rid \<longrightarrow> entities s1 k = entities s k) \<and>
              broadcastingEntities s1 = broadcastingEntities s \<and>
              nextHandle s1 \<le> Suc (nextHandle s) \<and>
              \<not> (js_get (obj_get data ''firebase-broadcast'') ''shared'' = Inr (JBool True) \<and>
                 js_truthy (obj_get data ''id'') \<and>
                 querySelector s (''#'' @ js_to_string (obj_get data ''id'')) = Null)) \<or>
         (\<exists>sh. js_get (obj_get data ''firebase-broadcast'') ''shared'' = Inr sh \<and>
               sh = JBool True \<and> js_truthy (obj_get data ''id'') \<and>
               querySelector s (''#'' @ js_to_string (obj_get data ''id'')) = Null \<and>
               r = Threw TypeError \<and> s1 = s\<lparr>entities := (entities s)(rid := Null)\<rparr>)"
proof (cases "js_get (obj_get data ''firebase-broadcast'') ''shared''")
  case (Inl e)
  with nk res show ?thesis by (simp add: handleEntityAdded_def)
next
  case (Inr sh)
  show ?thesis
  proof (cases "sh = JBool True \<and> js_truthy (obj_get data ''id'')")
    case reuse: True
    let ?q = "querySelector s (''#'' @ js_to_string (obj_get data ''id''))"
    let ?s2 = "s\<lparr>entities := (entities s)(rid := ?q)\<rparr>"
    obtain r3 s3 where fe: "forEach (setComponent_added ?q data) (Object_keys data) ?s2 = (r3, s3)"
      by (cases "forEach (setComponent_added ?q data) (Object_keys data) ?s2")
    from forEach_added_frame [OF fe] have fr3: "entities s3 = entities ?s2"
      "broadcastingEntities s3 = broadcastingEntities s" "nextHandle s3 = nextHandle s"
      by simp_all
    have out: "(r, s1) = (case r3 of Threw e \<Rightarrow> (Threw e, s3) | Returned \<Rightarrow> (Returned, s3))"
      using nk res Inr reuse fe
      by (simp add: handleEntityAdded_def Let_def split: outcome.splits elref.splits)
    then have s1: "s1 = s3" by (cases r3) simp_all
    show ?thesis
    proof (cases ?q)
      case Undefined
      then show ?thesis using querySelector_defined by blast
    next
      case Null
      then have nel: "\<And>h. ?q \<noteq> El h" by simp
      from forEach_added_null [OF nel fe] have s3: "s3 = ?s2"
        and keys: "r3 = Returned \<longrightarrow> set (Object_keys data) \<subseteq> {''firebase-broadcast'', ''parentId''}"
        by simp_all
      from reuse have "''id'' \<in> set (Object_keys data)"
        by (auto simp: obj_get_def Object_keys_def split: option.splits dest: map_of_SomeD
            intro: rev_image_eqI)
      with keys have "r3 \<noteq> Returned" by auto
      then obtain e where r3: "r3 = Threw e" by (cases r3) auto
      have "e = TypeError"
      proof -
        have "\<And>ks s r s'. forEach (setComponent_added ?q data) ks s = (Threw e, s') \<Longrightarrow> e = TypeError"
        proof -
          fix ks s r s' show "forEach (setComponent_added ?q data) ks s = (Threw e, s') \<Longrightarrow> e = TypeError"
          proof (induction ks arbitrary: s)
            case Nil then show ?case by simp
          next
            case (Cons k ks)
            then show ?case using Null
              by (auto simp: setComponent_added_def setAttribute_def split: if_splits)
          qed
        qed
        with fe r3 show ?thesis by blast
      qed
      with out r3 s1 s3 Null Inr reuse show ?thesis by simp
    next
      case (El h)
      with fr3 s1 have "entities s1 rid = El h \<and> (\<forall>k. k \<noteq> rid \<longrightarrow> entities s1 k = entities s k) \<and>
              broadcastingEntities s1 = broadcastingEntities s \<and>
              nextHandle s1 \<le> Suc (nextHandle s) \<and>
              \<not> (js_get (obj_get data ''firebase-broadcast'') ''shared'' = Inr (JBool True) \<and>
                 js_truthy (obj_get data ''id'') \<and>
                 querySelector s (''#'' @ js_to_string (obj_get data ''id'')) = Null)"
        by simp
      then show ?thesis by blast
    qed
  next
    case create: False
    let ?h = "nextHandle s"
    let ?s' = "s\<lparr>els := (els s)(nextHandle s := new_element), nextHandle := Suc (nextHandle s)\<rparr>"
    let ?s2 = "?s'\<lparr>entities := (entities ?s')(rid := El ?h)\<rparr>"
    have ce: "createElement s = (?h, ?s')" by (simp add: createElement_def)
    have fr2: "entities ?s' = entities s" "broadcastingEntities ?s' = broadcastingEntities s"
      "nextHandle ?s' = Suc (nextHandle s)"
      by simp_all
    obtain r3 s3 where fe: "forEach (setComponent_added (El ?h) data) (Object_keys data) ?s2 = (r3, s3)"
      by (cases "forEach (setComponent_added (El ?h) data) (Object_keys data) ?s2")
    from forEach_added_frame [OF fe] fr2 have fr3: "entities s3 = (entities s)(rid := El ?h)"
      "broadcastingEntities s3 = broadcastingEntities s" "nextHandle s3 = Suc (nextHandle s)"
      by simp_all
    have "s1 = s3 \<or> (\<exists>p r'. appendChild p ?h s3 = (r', s1))"
      using nk res Inr create fe ce
      by (auto simp: handleEntityAdded_def Let_def split: outcome.splits elref.splits)
    then have "entities s1 = entities s3 \<and> broadcastingEntities s1 = broadcastingEntities s3 \<and>
               nextHandle s1 = nextHandle s3"
      by (auto dest: appendChild_frame)
    with fr3 create Inr
    have "entities s1 rid = El ?h \<and> (\<forall>k. k \<noteq> rid \<longrightarrow> entities s1 k = entities s k) \<and>
              broadcastingEntities s1 = broadcastingEntities s \<and>
              nextHandle s1 \<le> Suc (nextHandle s) \<and>
              \<not> (js_get (obj_get data ''firebase-broadcast'') ''shared'' = Inr (JBool True) \<and>
                 js_truthy (obj_get data ''id'') \<and>
                 querySelector s (''#'' @ js_to_string (obj_get data ''id'')) = Null)"
      by auto
    then show ?thesis by blast
  qed
qed


lemma added_again:
  assumes first: "handleEntityAdded rid data s = (r1, s1)"
  shows "snd (handleEntityAdded rid data s1) = s1 \<and>
         (r1 = Returned \<longrightarrow> handleEntityAdded rid data s1 = (Returned, s1))"
proof (cases "known s rid")
  case True
  with first show ?thesis by (simp add: handleEntityAdded_def)
next
  case nk: False
  let ?sel = "''#'' @ js_to_string (obj_get data ''id'')"
  from added_cases [OF nk first]
  consider (fails) e where "js_get (obj_get data ''firebase-broadcast'') ''shared'' = Inl e"
      "r1 = Threw e" "s1 = s"
    | (entry) h where "entities s1 rid = El h"
    | (missing) "js_get (obj_get data ''firebase-broadcast'') ''shared'' = Inr (JBool True)"
      "js_truthy (obj_get data ''id'')" "querySelector s ?sel = Null"
      "r1 = Threw TypeError" "s1 = s\<lparr>entities := (entities s)(rid := Null)\<rparr>"
    by blast
  then show ?thesis
  proof cases
    case fails
    with first show ?thesis by simp
  next
    case entry
    then have "known s1 rid" by (rule known_El)
    then show ?thesis by (simp add: added_known)
  next
    case missing
    have nk1: "\<not> known s1 rid" using nk missing(5) by (simp add: known_def)
    have q1: "querySelector s1 ?sel = Null" using missing(3,5) by (simp add: querySelector_entities)
    obtain r2 s2 where second: "handleEntityAdded rid data s1 = (r2, s2)"
      by (cases "handleEntityAdded rid data s1")
    from added_cases [OF nk1 second] missing(1,2) q1
    have "s2 = s1\<lparr>entities := (entities s1)(rid := Null)\<rparr>" by auto
    also have "\<dots> = s1" using missing(5) by simp
    finally show ?thesis using second missing(4) by simp
  qed
qed

lemma added_entry:
  assumes "handleEntityAdded rid data s = (Returned, s1)" and "\<not> known s rid"
  shows "(\<exists>h. entities s1 rid = El h) \<and>
         (\<forall>k. k \<noteq> rid \<longrightarrow> entities s1 k = entities s k) \<and>
         nextHandle s1 \<le> Suc (nextHandle s)"
  using added_cases [OF assms(2,1)] by auto

section \<open>Rounding to double precision\<close>

text \<open>
  The binary exponent brackets its argument, rounding a magnitude is monotone, and so
  a rounded difference that is not below a bound stays so when the exact difference grows.
\<close>

lemma two_powi_Suc: "(2::rat) powi (k + 1) = 2 * 2 powi k"
  by (simp add: power_int_add)

lemma two_powi_pred: "(2::rat) powi (k - 1) = 2 powi k / 2"
  by (simp add: power_int_diff)

lemma lg_hi_spec: "1 \<le> a \<Longrightarrow> 2 powi (lg_hi a) \<le> a \<and> a < 2 powi (lg_hi a + 1)"
proof (induction a rule: lg_hi.induct)
  case (1 a)
  show ?case
  proof (cases "2 \<le> a")
    case True
    then have "1 \<le> a / 2" by simp
    with "1.IH" True have "2 powi (lg_hi (a / 2)) \<le> a / 2 \<and> a / 2 < 2 powi (lg_hi (a / 2) + 1)"
      by blast
    moreover have "lg_hi a = lg_hi (a / 2) + 1" using True by (subst lg_hi.simps) simp
    moreover have "(2::rat) powi (lg_hi (a / 2) + 1) = 2 * 2 powi (lg_hi (a / 2))"
      by (rule two_powi_Suc)
    moreover have "(2::rat) powi (lg_hi (a / 2) + 1 + 1) = 2 * 2 powi (lg_hi (a / 2) + 1)"
      by (rule two_powi_Suc)
    ultimately show ?thesis by simp
  next
    case False
    then have "lg_hi a = 0" by (subst lg_hi.simps) simp
    with False "1.prems" show ?thesis by simp
  qed
qed

lemma lg_lo_spec: "0 < a \<Longrightarrow> a < 1 \<Longrightarrow> 2 powi (lg_lo a) \<le> a \<and> a < 2 powi (lg_lo a + 1)"
proof (induction a rule: lg_lo.induct)
  case (1 a)
  have eq: "lg_lo a = lg_lo (2 * a) - 1" using "1.prems" by (subst lg_lo.simps) simp
  show ?case
  proof (cases "2 * a < 1")
    case True
    with "1.IH" "1.prems" have "2 powi (lg_lo (2 * a)) \<le> 2 * a \<and> 2 * a < 2 powi (lg_lo (2 * a) + 1)"
      by simp
    with eq show ?thesis by (simp add: two_powi_pred two_powi_Suc)
  next
    case False
    then have "lg_lo (2 * a) = 0" by (subst lg_lo.simps) simp
    with eq False "1.prems" show ?thesis by (simp add: power_int_minus)
  qed
qed

lemma lg_spec: "0 < a \<Longrightarrow> 2 powi (lg a) \<le> a \<and> a < 2 powi (lg a + 1)"
  using lg_hi_spec [of a] lg_lo_spec [of a] by (auto simp: lg_def)

lemma lg_ge_iff: "0 < a \<Longrightarrow> n \<le> lg a \<longleftrightarrow> 2 powi n \<le> a"
proof
  assume a: "0 < a" and n: "n \<le> lg a"
  have "(2::rat) powi n \<le> 2 powi (lg a)" using n by (intro power_int_increasing) simp_all
  with lg_spec [OF a] show "2 powi n \<le> a" by linarith
next
  assume a: "0 < a" and p: "2 powi n \<le> a"
  with lg_spec [OF a] have "(2::rat) powi n < 2 powi (lg a + 1)" by linarith
  have "n < lg a + 1"
  proof (rule ccontr)
    assume "\<not> n < lg a + 1"
    then have "lg a + 1 \<le> n" by simp
    then have "(2::rat) powi (lg a + 1) \<le> 2 powi n" by (intro power_int_increasing) simp_all
    with \<open>(2::rat) powi n < 2 powi (lg a + 1)\<close> show False by simp
  qed
  then show "n \<le> lg a" by simp
qed

lemma lg_mono: "0 < a \<Longrightarrow> a \<le> b \<Longrightarrow> lg a \<le> lg b"
  using lg_spec [of a] lg_ge_iff [of b "lg a"] by auto

lemma rne_bounds: "\<lfloor>y\<rfloor> \<le> rne y \<and> rne y \<le> \<lfloor>y\<rfloor> + 1"
  by (simp add: rne_def Let_def)

lemma rne_of_int: "rne (of_int n) = n"
  by (simp add: rne_def Let_def)

lemma rne_mono: "x \<le> y \<Longrightarrow> rne x \<le> rne y"
proof -
  assume xy: "x \<le> y"
  then have fl: "\<lfloor>x\<rfloor> \<le> \<lfloor>y\<rfloor>" by (rule floor_mono)
  show ?thesis
  proof (cases "\<lfloor>x\<rfloor> < \<lfloor>y\<rfloor>")
    case True
    with rne_bounds [of x] rne_bounds [of y] show ?thesis by linarith
  next
    case False
    with fl have "\<lfloor>x\<rfloor> = \<lfloor>y\<rfloor>" by simp
    with xy show ?thesis by (simp add: rne_def Let_def)
  qed
qed

lemma ulp_pos: "0 < ulp a"
  by (simp add: ulp_def)

lemma round_mag_nonneg: "0 \<le> a \<Longrightarrow> 0 \<le> round_mag a"
proof -
  assume "0 \<le> a"
  then have "0 \<le> a / ulp a" using ulp_pos [of a] by simp
  then have "rne 0 \<le> rne (a / ulp a)" by (rule rne_mono)
  then have "0 \<le> rne (a / ulp a)" using rne_of_int [of 0] by simp
  then show ?thesis using ulp_pos [of a] by (simp add: round_mag_def)
qed

lemma two_powi_52: "(2::rat) powi 52 = of_int (2 ^ 52)"
  by simp

lemma two_powi_53: "(2::rat) powi 53 = of_int (2 ^ 53)"
  by simp

lemma round_mag_upper:
  assumes "0 < a"
  shows "round_mag a \<le> 2 powi (max (lg a) (- 1022) + 1)"
proof -
  let ?e = "max (lg a) (- 1022)"
  have "a < 2 powi (lg a + 1)" using lg_spec [OF assms] by simp
  also have "\<dots> \<le> 2 powi (?e + 1)" by (intro power_int_increasing) simp_all
  finally have "a / ulp a \<le> 2 powi (?e + 1) / 2 powi (?e - 52)"
    using ulp_pos [of a] by (simp add: ulp_def divide_right_mono)
  also have "\<dots> = 2 powi 53" by (simp add: power_int_diff [symmetric])
  finally have "rne (a / ulp a) \<le> rne (of_int (2 ^ 53))"
    unfolding two_powi_53 by (rule rne_mono)
  then have "rne (a / ulp a) \<le> 2 ^ 53" by (simp only: rne_of_int)
  then have "of_int (rne (a / ulp a)) \<le> (of_int (2 ^ 53) :: rat)" by (simp only: of_int_le_iff)
  then have "round_mag a \<le> 2 powi 53 * 2 powi (?e - 52)"
    unfolding two_powi_53 round_mag_def ulp_def by (intro mult_right_mono) simp_all
  also have "\<dots> = 2 powi (53 + (?e - 52))" by (rule power_int_add [symmetric]) simp
  also have "53 + (?e - 52) = ?e + 1" by simp
  finally show ?thesis .
qed

lemma round_mag_lower:
  assumes "0 < b" and "- 1022 \<le> lg b"
  shows "2 powi (lg b) \<le> round_mag b"
proof -
  have e: "max (lg b) (- 1022) = lg b" using assms(2) by simp
  have "2 powi (lg b) / 2 powi (lg b - 52) \<le> b / ulp b"
    using lg_spec [OF assms(1)] by (simp add: ulp_def e divide_right_mono)
  moreover have "(2::rat) powi (lg b) / 2 powi (lg b - 52) = 2 powi 52"
    by (simp add: power_int_diff [symmetric])
  ultimately have "rne (of_int (2 ^ 52)) \<le> rne (b / ulp b)"
    unfolding two_powi_52 by (intro rne_mono) simp
  then have "2 ^ 52 \<le> rne (b / ulp b)" by (simp only: rne_of_int)
  then have "(of_int (2 ^ 52) :: rat) \<le> of_int (rne (b / ulp b))" by (simp only: of_int_le_iff)
  then have "2 powi 52 * 2 powi (lg b - 52) \<le> round_mag b"
    unfolding two_powi_52 round_mag_def ulp_def e by (intro mult_right_mono) simp_all
  moreover have "(2::rat) powi 52 * 2 powi (lg b - 52) = 2 powi (52 + (lg b - 52))"
    by (rule power_int_add [symmetric]) simp
  moreover have "52 + (lg b - 52) = lg b" by simp
  ultimately show ?thesis by simp
qed

lemma round_mag_mono:
  assumes "0 < a" and "a \<le> b"
  shows "round_mag a \<le> round_mag b"
proof -
  let ?ea = "max (lg a) (- 1022)" and ?eb = "max (lg b) (- 1022)"
  have b: "0 < b" using assms by simp
  have le: "?ea \<le> ?eb" using lg_mono [OF assms] by simp
  show ?thesis
  proof (cases "?ea = ?eb")
    case True
    then have u: "ulp a = ulp b" by (simp add: ulp_def)
    have "a / ulp b \<le> b / ulp b" using assms(2) ulp_pos [of b] by (simp add: divide_right_mono)
    then have "rne (a / ulp b) \<le> rne (b / ulp b)" by (rule rne_mono)
    then show ?thesis using ulp_pos [of b] by (simp add: round_mag_def u)
  next
    case False
    from le False have lt: "?ea < ?eb" by (rule le_neq_trans)
    then have lb: "- 1022 \<le> lg b" and eb: "?eb = lg b" by arith+
    have "round_mag a \<le> 2 powi (?ea + 1)" using assms(1) by (rule round_mag_upper)
    also have "\<dots> \<le> 2 powi (lg b)"
    proof (rule power_int_increasing)
      show "?ea + 1 \<le> lg b" using lt eb by arith
    qed simp
    also have "\<dots> \<le> round_mag b" using b lb by (rule round_mag_lower)
    finally show ?thesis .
  qed
qed

lemma lg_small: "a < 1 \<Longrightarrow> lg a \<le> 0"
proof (cases "0 < a")
  case True
  assume "a < 1"
  show ?thesis
  proof (rule ccontr)
    assume "\<not> lg a \<le> 0"
    then have "0 \<le> lg a" by simp
    then have "(2::rat) powi 0 \<le> 2 powi (lg a)" by (intro power_int_increasing) simp_all
    with lg_spec [OF True] \<open>a < 1\<close> show False by simp
  qed
next
  case False
  assume "a < 1"
  then have "lg a = lg_lo a" by (simp add: lg_def)
  also have "\<dots> = 0" using False by (subst lg_lo.simps) simp
  finally show ?thesis by simp
qed

lemma overflow_iff: "1024 \<le> lg m \<longleftrightarrow> 2 powi 1024 \<le> m"
proof (cases "0 < m")
  case True
  then show ?thesis by (rule lg_ge_iff)
next
  case False
  then have "m < 1" by simp
  from lg_small [OF this] have "\<not> 1024 \<le> lg m" by simp
  moreover have "\<not> 2 powi 1024 \<le> m"
  proof
    assume "2 powi 1024 \<le> m"
    moreover have "(0::rat) < 2 powi 1024" by simp
    ultimately show False using False by linarith
  qed
  ultimately show ?thesis by simp
qed

lemma double_less_mono:
  assumes "0 \<le> x" and "x \<le> y" and "\<not> double_less (round_double x) i"
  shows "\<not> double_less (round_double y) i"
proof (cases "y = 0")
  case True
  with assms show ?thesis by simp
next
  case False
  with assms have y: "0 < y" by simp
  have ny: "0 \<le> round_mag \<bar>y\<bar>" by (rule round_mag_nonneg) simp
  show ?thesis
  proof (cases "x = 0")
    case True
    with assms(3) have "i \<le> 0" by (simp add: round_double_def double_less_def)
    with ny y show ?thesis by (simp add: round_double_def double_less_def)
  next
    case False
    with assms have x: "0 < x" by simp
    have m: "round_mag \<bar>x\<bar> \<le> round_mag \<bar>y\<bar>" using x assms(2) by (intro round_mag_mono) simp_all
    show ?thesis
    proof (cases "1024 \<le> lg (round_mag \<bar>x\<bar>)")
      case True
      then have "2 powi 1024 \<le> round_mag \<bar>x\<bar>" by (simp only: overflow_iff)
      with m have "2 powi 1024 \<le> round_mag \<bar>y\<bar>" by linarith
      then have "1024 \<le> lg (round_mag \<bar>y\<bar>)" by (simp only: overflow_iff)
      with y show ?thesis by (simp add: round_double_def double_less_def)
    next
      case False
      with assms(3) x have "i \<le> round_mag \<bar>x\<bar>" by (simp add: round_double_def double_less_def)
      with m y show ?thesis by (simp add: round_double_def double_less_def)
    qed
  qed
qed

text \<open>
  Some values of the rounding: the doubles that the literals \<open>0.1\<close> and \<open>10.1\<close>
  denote, two ties that go to the even significand, a negative operand, and numbers that
  are or are not doubles.
\<close>

lemma round_double_values:
  "nearest_double (1 / 10) = 3602879701896397 / 36028797018963968 \<and>
   nearest_double (101 / 10) = 5685794529555251 / 562949953421312 \<and>
   round_double (9007199254740993 / 9007199254740992) = Finite 1 \<and>
   round_double (9007199254740995 / 9007199254740992) = Finite (2251799813685249 / 2251799813685248) \<and>
   round_double (- (1 / 3)) = Finite (- (6004799503160661 / 18014398509481984)) \<and>
   is_double 10 \<and> is_double (1 / 1024) \<and> \<not> is_double (1 / 10)"
  by code_simp

text \<open>
  Rounding is monotone, so a non-negative difference below a double \<open>i\<close> whose
  rounded value is not below \<open>i\<close> rounds to \<open>i\<close> itself.
\<close>

lemma round_double_le:
  assumes "0 \<le> x" and "x \<le> y" and "round_double y = Finite r"
  shows "\<not> double_less (round_double x) r \<longrightarrow> round_double x = Finite r"
proof
  assume lo: "\<not> double_less (round_double x) r"
  show "round_double x = Finite r"
  proof (cases "round_double x")
    case (Finite q)
    then have "\<not> double_less (round_double x) q" by (simp add: double_less_def)
    with assms(1,2) have "\<not> double_less (round_double y) q" by (rule double_less_mono)
    with assms(3) have "q \<le> r" by (simp add: double_less_def)
    moreover from lo Finite have "r \<le> q" by (simp add: double_less_def)
    ultimately show ?thesis using Finite by simp
  next
    case PosInfinity
    then have "\<not> double_less (round_double x) (r + 1)" by (simp add: double_less_def)
    with assms(1,2) have "\<not> double_less (round_double y) (r + 1)" by (rule double_less_mono)
    with assms(3) show ?thesis by (simp add: double_less_def)
  next
    case NegInfinity
    with lo show ?thesis by (simp add: double_less_def)
  qed
qed

lemma early_pass_rounds:
  assumes "is_double i" and "0 \<le> x" and "x < i" and "\<not> double_less (round_double x) i"
  shows "round_double x = Finite i"
proof -
  from assms(1) have "round_double i = Finite i" by (simp add: is_double_def)
  moreover from assms(3) have "x \<le> i" by simp
  ultimately show ?thesis using assms(2,4) round_double_le [of x i i] by blast
qed

section \<open>Remote events: the claims\<close>

text \<open>
  Claim C2. For every remote identifier present in the Broadcast Table, a "changed" event
  for that identifier mutates no local state: \<open>handleEntityChanged\<close> returns at line
  108, before any field is applied, whatever the record holds.
\<close>

theorem changed_no_self_feedback:
  "map_of (broadcastingEntities s) rid = Some el \<Longrightarrow>
   handleEntityChanged rid cs s = (Returned, s)"
  by (simp add: handleEntityChanged_def)

theorem changed_no_self_feedback_witness:
  "map_of (broadcastingEntities (exBoxScene False [])) ''box1'' = Some 1 \<and>
   handleEntityChanged ''box1'' exRecord (exBoxScene False []) = (Returned, exBoxScene False [])"
proof -
  have h: "map_of (broadcastingEntities (exBoxScene False [])) ''box1'' = Some 1"
    by code_simp
  show ?thesis using h changed_no_self_feedback [OF h, of exRecord] by simp
qed

text \<open>
  Claim C3 says that delivering the same "entity added" event twice yields exactly one
  local entity and exactly one Replica Table entry. For a shared record the handler
  looks the element up by its \<open>id\<close> (line 83) and does not test the result: when no
  element of the scene has that \<open>id\<close>, line 88 stores \<open>null\<close> in the Replica Table
  and the first \<open>setAttribute\<close> of line 94 is a TypeError. The entry is not an
  element, so the test of line 77 lets the second delivery through, and it fails in
  the same way: after both deliveries there is no local entity for the identifier and
  the table holds \<open>null\<close> for it. The comment of line 79 (get or create entity) and
  the branch of line 85, which always yields an element, say what the lookup was meant
  to give.
\<close>

theorem added_lookup_miss_throws:
  "querySelector exEmpty ''#box1'' = Null \<and>
   fst (handleEntityAdded ''-K0'' exSharedRecord exEmpty) = Threw TypeError \<and>
   entities exMissed ''-K0'' = Null \<and>
   \<not> known exMissed ''-K0'' \<and>
   nextHandle exMissed = nextHandle exEmpty \<and>
   fst (handleEntityAdded ''-K0'' exSharedRecord exMissed) = Threw TypeError \<and>
   entities (snd (handleEntityAdded ''-K0'' exSharedRecord exMissed)) ''-K0'' = Null \<and>
   nextHandle (snd (handleEntityAdded ''-K0'' exSharedRecord exMissed)) = nextHandle exEmpty"
  by code_simp

text \<open>
  What does hold of a repeated delivery. An "entity added" event for an identifier that
  either table already maps to an element changes nothing. A second delivery of the
  same event always leaves the state of the first as it is; after a first delivery
  that returned, the second returns as well, and the first has made exactly one Replica
  Table entry, for that identifier, and created at most one element.
\<close>

lemma added_repeated:
  "(known s rid \<longrightarrow> handleEntityAdded rid data s = (Returned, s)) \<and>
   (\<forall>r1 s1. handleEntityAdded rid data s = (r1, s1) \<longrightarrow>
       snd (handleEntityAdded rid data s1) = s1 \<and>
       (r1 = Returned \<longrightarrow> handleEntityAdded rid data s1 = (Returned, s1)) \<and>
       (r1 = Returned \<and> \<not> known s rid \<longrightarrow>
          (\<exists>h. entities s1 rid = El h) \<and>
          (\<forall>k. k \<noteq> rid \<longrightarrow> entities s1 k = entities s k) \<and>
          nextHandle s1 \<le> Suc (nextHandle s)))"
proof (rule conjI)
  show "known s rid \<longrightarrow> handleEntityAdded rid data s = (Returned, s)"
    using added_known by blast
next
  show "\<forall>r1 s1. handleEntityAdded rid data s = (r1, s1) \<longrightarrow>
       snd (handleEntityAdded rid data s1) = s1 \<and>
       (r1 = Returned \<longrightarrow> handleEntityAdded rid data s1 = (Returned, s1)) \<and>
       (r1 = Returned \<and> \<not> known s rid \<longrightarrow>
          (\<exists>h. entities s1 rid = El h) \<and>
          (\<forall>k. k \<noteq> rid \<longrightarrow> entities s1 k = entities s k) \<and>
          nextHandle s1 \<le> Suc (nextHandle s))"
  proof (intro allI impI)
    fix r1 s1 assume first: "handleEntityAdded rid data s = (r1, s1)"
    have "r1 = Returned \<and> \<not> known s rid \<longrightarrow>
          (\<exists>h. entities s1 rid = El h) \<and>
          (\<forall>k. k \<noteq> rid \<longrightarrow> entities s1 k = entities s k) \<and>
          nextHandle s1 \<le> Suc (nextHandle s)"
      using first added_entry [of rid data s s1] by blast
    with added_again [OF first]
    show "snd (handleEntityAdded rid data s1) = s1 \<and>
       (r1 = Returned \<longrightarrow> handleEntityAdded rid data s1 = (Returned, s1)) \<and>
       (r1 = Returned \<and> \<not> known s rid \<longrightarrow>
          (\<exists>h. entities s1 rid = El h) \<and>
          (\<forall>k. k \<noteq> rid \<longrightarrow> entities s1 k = entities s k) \<and>
          nextHandle s1 \<le> Suc (nextHandle s))"
      by blast
  qed
qed

text \<open>
  Claim C10. For an "entity added" event whose identifier is not already known, the
  handler reads \<open>data['firebase-broadcast'].shared\<close> (line 82) before anything else:
  a record without a \<open>firebase-broadcast\<close> field makes that read a TypeError, and the
  event is not processed (no element is created, no table entry is made).
\<close>

theorem added_requires_broadcastMeta:
  "\<not> known s rid \<Longrightarrow> map_of data ''firebase-broadcast'' = None \<Longrightarrow>
   handleEntityAdded rid data s = (Threw TypeError, s)"
  by (simp add: handleEntityAdded_def obj_get_def)

theorem added_requires_broadcastMeta_witness:
  "\<not> known exEmpty ''e1'' \<and> map_of exBareRecord ''firebase-broadcast'' = None \<and>
   handleEntityAdded ''e1'' exBareRecord exEmpty = (Threw TypeError, exEmpty)"
proof -
  have h1: "\<not> known exEmpty ''e1''" by code_simp
  have h2: "map_of exBareRecord ''firebase-broadcast'' = None" by code_simp
  show ?thesis using h1 h2 added_requires_broadcastMeta [OF h1 h2] by simp
qed

text \<open>
  Claim C7 says that a "changed" event for an identifier in neither table is a no-op
  that raises no error. \<open>handleEntityChanged\<close> has no such check (its sibling
  \<open>handleEntityRemoved\<close> has one, line 122): \<open>this.entities[id]\<close> is undefined and the
  first field applied to it is a TypeError. Here the engine knows no entity at all and
  the record carries a position.
\<close>

theorem changed_unknown_throws:
  "entities exEmpty ''ghost'' = Undefined \<and>
   map_of (broadcastingEntities exEmpty) ''ghost'' = None \<and>
   fst (handleEntityChanged ''ghost'' exBareRecord exEmpty) = Threw TypeError"
  by code_simp

text \<open>
  Claim C4 says that neither handler applies \<open>firebase-broadcast\<close> or \<open>parentId\<close> as
  a component. \<open>handleEntityAdded\<close> skips both (line 93, "it will wipe components");
  \<open>handleEntityChanged\<close> skips \<open>parentId\<close> only (line 112). Here a replica created
  by an added event receives, as a changed event, a record such as \<open>tick\<close> sends, and
  its \<open>firebase-broadcast\<close> attribute is set.
\<close>

theorem changed_applies_broadcastMeta:
  "entities exReplica ''e1'' = El 1 \<and>
   attrs (els exReplica 1) ''firebase-broadcast'' = None \<and>
   fst (handleEntityChanged ''e1'' exRecord exReplica) = Returned \<and>
   attrs (els (snd (handleEntityChanged ''e1'' exRecord exReplica)) 1) ''firebase-broadcast'' =
     Some (JObj [(''shared'', JBool False)])"
  by code_simp

section \<open>Registration and the tick: the claims\<close>

text \<open>
  Claim C9 says that on an inert engine both \<open>tick\<close> and \<open>registerBroadcast\<close> are
  no-ops that raise no error. \<open>tick\<close> returns at line 155; \<open>registerBroadcast\<close> has
  no such guard: it enters the element in the Broadcast Table (line 135) and then calls
  \<open>database.child\<close> on the undefined \<open>this.database\<close>, a TypeError. Here the engine
  was initialised without configuration and a box registers.
\<close>

theorem register_inert_throws:
  "\<not> firebase (exInert ((\<lambda>h. new_element)(1 := exBox False [])) 2) \<and>
   broadcastingEntities (exInert ((\<lambda>h. new_element)(1 := exBox False [])) 2) = [] \<and>
   fst (registerBroadcast 1 (exInert ((\<lambda>h. new_element)(1 := exBox False [])) 2)) = Threw TypeError \<and>
   broadcastingEntities (snd (registerBroadcast 1 (exInert ((\<lambda>h. new_element)(1 := exBox False [])) 2)))
     = [(''box1'', 1)]"
  by code_simp

text \<open>
  Claim C5 says that the components of \<open>componentsOnce\<close> are in exactly one outbound
  record. The flag \<open>firebaseBroadcastOnce\<close> is set (line 191) before the parent check
  (line 197) can end the callback: the child's first tick, with a parent that has no
  broadcast component yet, sets the flag and sends nothing; after the parent has
  registered, the child's record carries \<open>position\<close> but never \<open>color\<close>.
\<close>

theorem once_components_lost:
  "updates (snd (tick 100 (exFamily None))) = [] \<and>
   firebaseBroadcastOnce (els (snd (tick 100 (exFamily None))) 2) \<and>
   updates (snd (tick 200 exLateParent)) =
     [(''child'',
       [(''id'', JStr ''child''),
        (''firebase-broadcast'', JObj [(''shared'', JBool False)]),
        (''parentId'', JStr ''-K1''),
        (''position'', exPosition)]),
      (''parent'',
       [(''id'', JStr ''parent''),
        (''firebase-broadcast'', JObj [(''shared'', JBool False)]),
        (''position'', exPosition)])]"
  by code_simp

section \<open>The interval between passes\<close>

lemma tick_early: "tooEarly t s \<Longrightarrow> tick t s = (Returned, s)"
  by (simp add: tick_def)

lemma tick_clock:
  "firebase (snd (tick t s)) = firebase s \<and> interval (snd (tick t s)) = interval s \<and>
   time (snd (tick t s)) = (if firebase s \<and> \<not> tooEarly t s then Some t else time s)"
proof -
  obtain r s' where ts: "tick t s = (r, s')" by (cases "tick t s")
  show ?thesis
  proof (cases "firebase s \<and> \<not> tooEarly t s")
    case True
    with ts have fe:
      "forEach broadcastEntity (Object_keys (broadcastingEntities s)) (s\<lparr>time := Some t\<rparr>) = (r, s')"
      by (simp add: tick_def)
    have "firebase s' = firebase s \<and> interval s' = interval s \<and> time s' = Some t"
      by (rule forEach_broadcast_inv [OF fe]) (auto dest!: broadcastEntity_stepped simp: stepped_def)
    with True ts show ?thesis by simp
  next
    case False
    with ts have "s' = s" by (auto simp: tick_def split: if_splits)
    with False ts show ?thesis by auto
  qed
qed

lemma tick_changes:
  assumes "snd (tick t s) \<noteq> s"
  shows "firebase s \<and> \<not> tooEarly t s \<and> time (snd (tick t s)) = Some t"
proof -
  from assms have "firebase s \<and> \<not> tooEarly t s"
    by (auto simp: tick_def split: if_splits)
  with tick_clock [of t s] show ?thesis by simp
qed

lemma passes_subset: "set (passes ts s) \<subseteq> set ts"
  by (induction ts arbitrary: s) auto

lemma passes_after:
  "time s = Some t0 \<Longrightarrow> interval s = Some i \<Longrightarrow> sorted ts \<Longrightarrow> \<forall>x\<in>set ts. t0 \<le> x \<Longrightarrow>
   \<forall>x\<in>set (passes ts s). \<not> double_less (round_double (x - t0)) i"
proof (induction ts arbitrary: s t0)
  case Nil
  then show ?case by simp
next
  case (Cons t ts)
  let ?s' = "snd (tick t s)"
  have iv: "interval ?s' = Some i" using tick_clock [of t s] Cons.prems(2) by simp
  have st: "sorted ts" and ge: "\<forall>x\<in>set ts. t \<le> x" and t0t: "t0 \<le> t"
    using Cons.prems(3,4) by auto
  show ?case
  proof (cases "firebase s \<and> \<not> tooEarly t s")
    case True
    then have gap: "\<not> double_less (round_double (t - t0)) i"
      using Cons.prems(1,2) by (simp add: tooEarly_def)
    have tm: "time ?s' = Some t" using tick_clock [of t s] True by simp
    have "\<not> double_less (round_double (x - t0)) i" if x: "x \<in> set (passes ts ?s')" for x
    proof -
      from Cons.IH [OF tm iv st ge] x have late: "\<not> double_less (round_double (x - t)) i"
        by blast
      from x passes_subset [of ts ?s'] ge have "t \<le> x" by blast
      then have "0 \<le> x - t" and "x - t \<le> x - t0" using t0t by simp_all
      then show ?thesis using late by (rule double_less_mono)
    qed
    with True gap show ?thesis by simp
  next
    case False
    then have tm: "time ?s' = Some t0" using tick_clock [of t s] Cons.prems(1) by auto
    have "\<forall>x\<in>set ts. t0 \<le> x" using Cons.prems(4) by simp
    from Cons.IH [OF tm iv st this] False show ?thesis by auto
  qed
qed

lemma passes_apart:
  "interval s = Some i \<Longrightarrow> sorted ts \<Longrightarrow>
   sorted_wrt (\<lambda>a b. \<not> double_less (round_double (b - a)) i) (passes ts s)"
proof (induction ts arbitrary: s)
  case Nil
  then show ?case by simp
next
  case (Cons t ts)
  let ?s' = "snd (tick t s)"
  have iv: "interval ?s' = Some i" using tick_clock [of t s] Cons.prems(1) by simp
  have st: "sorted ts" and ge: "\<forall>x\<in>set ts. t \<le> x" using Cons.prems(2) by auto
  have rest: "sorted_wrt (\<lambda>a b. \<not> double_less (round_double (b - a)) i) (passes ts ?s')"
    using Cons.IH [OF iv st] .
  show ?case
  proof (cases "firebase s \<and> \<not> tooEarly t s")
    case True
    then have tm: "time ?s' = Some t" using tick_clock [of t s] by simp
    from passes_after [OF tm iv st ge] rest True show ?thesis by simp
  next
    case False
    with rest show ?thesis by auto
  qed
qed

text \<open>
  Claim C8 says that the broadcast body executes only when the time elapsed since the
  last executed tick is at least the interval. Line 163 tests the difference as the
  double subtraction rounds it, and a difference just below the interval can round up to
  it. With the default interval 10, a pass at the double \<open>0.1\<close> is followed by a pass at
  the double \<open>10.1\<close>, although less than 10 has elapsed between the two: the nearest
  double to the exact difference is 10.
\<close>

theorem elapsed_below_interval_counterexample:
  "interval exDefaultScene = Some 10 \<and>
   is_double (nearest_double (1 / 10)) \<and> is_double (nearest_double (101 / 10)) \<and>
   nearest_double (101 / 10) - nearest_double (1 / 10) < 10 \<and>
   round_double (nearest_double (101 / 10) - nearest_double (1 / 10)) = Finite 10 \<and>
   passes [nearest_double (1 / 10), nearest_double (101 / 10)] exDefaultScene =
     [nearest_double (1 / 10), nearest_double (101 / 10)] \<and>
   time (ticks [nearest_double (1 / 10), nearest_double (101 / 10)] exDefaultScene) =
     Some (nearest_double (101 / 10)) \<and>
   length (updates (ticks [nearest_double (1 / 10), nearest_double (101 / 10)] exDefaultScene)) = 2"
  by code_simp

text \<open>
  Claim C8, amended: with the elapsed time read as line 163 computes it, the rounded
  difference of the two doubles. A tick whose rounded difference from the last executed
  pass is below the interval is a complete no-op: it leaves the whole state, the
  recorded time included, as it was. A tick that changes anything has passed the guards
  of lines 155 and 163, so that rounded difference is not below the interval, and it
  records its own time; if less than the interval has elapsed before such a tick, the
  difference rounds to the interval itself. Over a run of ticks with monotonic
  timestamps, the rounded difference between any two executed passes is not below the
  interval.
\<close>

theorem tick_interval_limit:
  "(time s = Some t0 \<and> interval s = Some i \<and> double_less (round_double (t - t0)) i \<longrightarrow>
      tick t s = (Returned, s)) \<and>
   (snd (tick t s) \<noteq> s \<longrightarrow>
      firebase s \<and> time (snd (tick t s)) = Some t \<and>
      (\<forall>t0 i. time s = Some t0 \<and> interval s = Some i \<longrightarrow>
         \<not> double_less (round_double (t - t0)) i)) \<and>
   (snd (tick t s) \<noteq> s \<and> time s = Some t0 \<and> interval s = Some i \<and> is_double i \<and>
    t0 \<le> t \<and> t - t0 < i \<longrightarrow>
      round_double (t - t0) = Finite i) \<and>
   (interval s = Some i \<and> sorted ts \<longrightarrow>
      sorted_wrt (\<lambda>a b. \<not> double_less (round_double (b - a)) i) (passes ts s))"
proof (intro conjI impI)
  assume "time s = Some t0 \<and> interval s = Some i \<and> double_less (round_double (t - t0)) i"
  then have "tooEarly t s" by (simp add: tooEarly_def)
  then show "tick t s = (Returned, s)" by (rule tick_early)
next
  assume ch: "snd (tick t s) \<noteq> s"
  from tick_changes [OF ch] show "firebase s" by simp
  from tick_changes [OF ch] show "time (snd (tick t s)) = Some t" by simp
  from tick_changes [OF ch] have "\<not> tooEarly t s" by simp
  then show "\<forall>t0 i. time s = Some t0 \<and> interval s = Some i \<longrightarrow>
               \<not> double_less (round_double (t - t0)) i"
    by (auto simp: tooEarly_def)
next
  assume a: "snd (tick t s) \<noteq> s \<and> time s = Some t0 \<and> interval s = Some i \<and> is_double i \<and>
             t0 \<le> t \<and> t - t0 < i"
  then have "\<not> tooEarly t s" using tick_changes [of t s] by simp
  with a have "\<not> double_less (round_double (t - t0)) i" by (simp add: tooEarly_def)
  moreover from a have "is_double i" and "0 \<le> t - t0" and "t - t0 < i" by simp_all
  ultimately show "round_double (t - t0) = Finite i" by (intro early_pass_rounds)
next
  assume "interval s = Some i \<and> sorted ts"
  then show "sorted_wrt (\<lambda>a b. \<not> double_less (round_double (b - a)) i) (passes ts s)"
    using passes_apart by blast
qed

theorem tick_interval_limit_witness:
  "tick 110 exTicked = (Returned, exTicked) \<and>
   time (snd (tick 120 exTicked)) = Some 120 \<and>
   round_double (nearest_double (101 / 10) - nearest_double (1 / 10)) = Finite 10 \<and>
   sorted_wrt (\<lambda>a b. \<not> double_less (round_double (b - a)) 20)
     (passes [100, 110, 119, 120, 130, 141] (exBoxScene False []))"
proof -
  have early: "time exTicked = Some 100 \<and> interval exTicked = Some 20 \<and>
               double_less (round_double (110 - 100)) 20"
    by code_simp
  have w1: "tick 110 exTicked = (Returned, exTicked)"
    using early tick_interval_limit [of exTicked 100 20 110 "[]"] by blast
  have "time (snd (tick 120 exTicked)) \<noteq> time exTicked" by code_simp
  then have changed: "snd (tick 120 exTicked) \<noteq> exTicked" by auto
  have w2: "time (snd (tick 120 exTicked)) = Some 120"
    using changed tick_interval_limit [of exTicked 100 20 120 "[]"] by blast
  have "time (snd (tick (nearest_double (101 / 10)) exDefaultTicked)) \<noteq> time exDefaultTicked"
    by code_simp
  then have moved: "snd (tick (nearest_double (101 / 10)) exDefaultTicked) \<noteq> exDefaultTicked"
    by auto
  have short: "time exDefaultTicked = Some (nearest_double (1 / 10)) \<and>
               interval exDefaultTicked = Some 10 \<and> is_double 10 \<and>
               nearest_double (1 / 10) \<le> nearest_double (101 / 10) \<and>
               nearest_double (101 / 10) - nearest_double (1 / 10) < 10"
    by code_simp
  have w3: "round_double (nearest_double (101 / 10) - nearest_double (1 / 10)) = Finite 10"
    using moved short
      tick_interval_limit [of exDefaultTicked "nearest_double (1 / 10)" 10
                              "nearest_double (101 / 10)" "[]"]
    by blast
  have run: "interval (exBoxScene False []) = Some 20 \<and>
             sorted [100, 110, 119, 120, 130, 141 :: rat]"
    by code_simp
  have w4: "sorted_wrt (\<lambda>a b. \<not> double_less (round_double (b - a)) 20)
              (passes [100, 110, 119, 120, 130, 141] (exBoxScene False []))"
    using run
      tick_interval_limit [of "exBoxScene False []" 0 20 0 "[100, 110, 119, 120, 130, 141]"]
    by blast
  from w1 w2 w3 w4 show ?thesis by (intro conjI)
qed


text \<open>
  The steps of the ownership protocol that hold in every state. For an entity of the
  Broadcast Table whose broadcast data is shared: if its owner is empty, the callback
  sets the owner to this client's identity on the element, every update that this call
  of the callback issues for the entity names that owner, and a tick that passes the
  interval check and completes leaves the element owned by this client; if its owner is
  non-empty and another client's, a tick issues no update for the entity; and once the
  owner is this client's identity, no run of ticks changes it.
\<close>

lemma ownership_steps:
  assumes "map_of (broadcastingEntities s) rid = Some el"
    and "getBroadcastData s el = Some bd" and "shared bd"
  shows "(owner bd = [] \<longrightarrow>
            (\<forall>r s'. broadcastEntity rid s = (r, s') \<longrightarrow>
               ownerOf s' el = Some (clientId s) \<and>
               (\<forall>u\<in>set (issued s s').
                  fst u = rid \<and>
                  js_prop (obj_get (snd u) ''firebase-broadcast'') ''owner'' = JStr (clientId s))) \<and>
            (\<forall>t s'. firebase s \<and> \<not> tooEarly t s \<and> tick t s = (Returned, s') \<longrightarrow>
               ownerOf s' el = Some (clientId s))) \<and>
         (owner bd \<noteq> [] \<and> owner bd \<noteq> clientId s \<longrightarrow>
            (\<forall>t. \<forall>u\<in>set (issued s (snd (tick t s))). fst u \<noteq> rid)) \<and>
         (owner bd = clientId s \<longrightarrow>
            (\<forall>ts. ownerOf (ticks ts s) el = Some (clientId s)))"
proof (intro conjI impI allI)
  fix r s' assume "owner bd = []" "broadcastEntity rid s = (r, s')"
  with assms show "ownerOf s' el = Some (clientId s)"
    by (intro claim_sets_owner)
next
  fix r s' assume "owner bd = []" "broadcastEntity rid s = (r, s')"
  with assms show "\<forall>u\<in>set (issued s s').
                  fst u = rid \<and>
                  js_prop (obj_get (snd u) ''firebase-broadcast'') ''owner'' = JStr (clientId s)"
    by (intro ballI claim_record_owner)
next
  fix t s' assume "owner bd = []" "firebase s \<and> \<not> tooEarly t s \<and> tick t s = (Returned, s')"
  with assms show "ownerOf s' el = Some (clientId s)"
    by (intro claim_by_tick [where t = t]) auto
next
  fix t assume "owner bd \<noteq> [] \<and> owner bd \<noteq> clientId s"
  with assms show "\<forall>u\<in>set (issued s (snd (tick t s))). fst u \<noteq> rid"
    by (intro foreign_owner_silent) auto
next
  fix ts assume "owner bd = clientId s"
  with assms(2) show "ownerOf (ticks ts s) el = Some (clientId s)"
    by (intro owner_kept_ticks) (simp add: ownerOf_def)
qed

text \<open>
  Claim C6 says that an entity whose parent has no resolved broadcast id is not broadcast.
  The check of line 197 is on the parent's \<open>firebase-broadcast\<close> attribute, not on
  its \<open>id\<close>: below a parent whose component is there and whose id is still the
  empty string, the child is broadcast, with an empty \<open>parentId\<close>.
\<close>

theorem parent_without_id_counterexample:
  "parentNode (els (exFamily (Some exIdleParent)) 2) = Some 1 \<and>
   sceneEl (exFamily (Some exIdleParent)) = 0 \<and>
   js_prop (el_getAttribute (exFamily (Some exIdleParent)) 1 ''firebase-broadcast'') ''id'' = JStr [] \<and>
   updates (exFamily (Some exIdleParent)) = [] \<and>
   updates (snd (tick 100 (exFamily (Some exIdleParent)))) =
     [(''child'',
       [(''id'', JStr ''child''),
        (''firebase-broadcast'', JObj [(''shared'', JBool False)]),
        (''parentId'', JStr []),
        (''position'', exPosition),
        (''color'', JStr ''red'')])]"
  by code_simp

text \<open>
  Claim C6, as the code has it. For an entity of the Broadcast Table whose parent is not
  the scene: while the parent has no \<open>firebase-broadcast\<close> attribute, a tick issues
  no update for the entity; and in every update a tick issues for the entity,
  \<open>parentId\<close> is the \<open>id\<close> property of the parent's attribute, provided the
  entity does not list \<open>parentId\<close> among its own components.
\<close>

theorem parent_check:
  assumes "map_of (broadcastingEntities s) rid = Some el"
    and "parentNode (els s el) = Some p" and "p \<noteq> sceneEl s"
  shows "(\<not> js_truthy (el_getAttribute s p ''firebase-broadcast'') \<longrightarrow>
            (\<forall>t. \<forall>u\<in>set (issued s (snd (tick t s))). fst u \<noteq> rid)) \<and>
         (\<forall>bd. getBroadcastData s el = Some bd \<and>
               ''parentId'' \<notin> set (components bd) \<union> set (componentsOnce bd) \<longrightarrow>
               (\<forall>t. \<forall>u\<in>set (issued s (snd (tick t s))).
                  fst u = rid \<longrightarrow>
                  obj_get (snd u) ''parentId'' =
                    js_prop (el_getAttribute s p ''firebase-broadcast'') ''id''))"
proof (intro conjI impI allI)
  fix t assume "\<not> js_truthy (el_getAttribute s p ''firebase-broadcast'')"
  with assms show "\<forall>u\<in>set (issued s (snd (tick t s))). fst u \<noteq> rid"
    by (intro parent_waits_tick)
next
  fix bd t
  assume "getBroadcastData s el = Some bd \<and>
          ''parentId'' \<notin> set (components bd) \<union> set (componentsOnce bd)"
  with assms show "\<forall>u\<in>set (issued s (snd (tick t s))).
                  fst u = rid \<longrightarrow>
                  obj_get (snd u) ''parentId'' =
                    js_prop (el_getAttribute s p ''firebase-broadcast'') ''id''"
    by (intro parent_record_tick) auto
qed

theorem parent_check_witness:
  "''child'' \<notin> fst ` set (issued (exFamily None) (snd (tick 100 (exFamily None)))) \<and>
   fst (hd (issued (exFamily (Some exRegisteredParent))
                   (snd (tick 100 (exFamily (Some exRegisteredParent)))))) = ''child'' \<and>
   obj_get (snd (hd (issued (exFamily (Some exRegisteredParent))
                            (snd (tick 100 (exFamily (Some exRegisteredParent))))))) ''parentId'' =
     JStr ''-K7''"
proof -
  have h: "map_of (broadcastingEntities (exFamily b)) ''child'' = Some 2 \<and>
           parentNode (els (exFamily b) 2) = Some 1 \<and> 1 \<noteq> sceneEl (exFamily b)" for b
    by (simp add: exFamily_def exLive_def init_def registerBroadcast_def Let_def
        getBroadcastData_def el_getAttribute_def exChild_def el_setProperty_def el_setAttribute_def)
  have no: "\<not> js_truthy (el_getAttribute (exFamily None) 1 ''firebase-broadcast'')"
    by code_simp
  have bd: "getBroadcastData (exFamily (Some exRegisteredParent)) 2 =
              Some \<lparr>bid = ''-K0'', components = [''position''], componentsOnce = [''color''],
                    shared = False, owner = []\<rparr>"
    by code_simp
  have nm: "''parentId'' \<notin> set (components \<lparr>bid = ''-K0'', components = [''position''],
                 componentsOnce = [''color''], shared = False, owner = []\<rparr>) \<union>
              set (componentsOnce \<lparr>bid = ''-K0'', components = [''position''],
                 componentsOnce = [''color''], shared = False, owner = []\<rparr>)"
    by simp
  have pid: "js_prop (el_getAttribute (exFamily (Some exRegisteredParent)) 1 ''firebase-broadcast'') ''id''
               = JStr ''-K7''"
    by code_simp
  have first: "hd (issued (exFamily (Some exRegisteredParent))
                     (snd (tick 100 (exFamily (Some exRegisteredParent)))))
                 \<in> set (issued (exFamily (Some exRegisteredParent))
                     (snd (tick 100 (exFamily (Some exRegisteredParent))))) \<and>
               fst (hd (issued (exFamily (Some exRegisteredParent))
                     (snd (tick 100 (exFamily (Some exRegisteredParent)))))) = ''child''"
    by code_simp
  note g1 = parent_check [of "exFamily None" "''child''" 2 1]
  note g2 = parent_check [of "exFamily (Some exRegisteredParent)" "''child''" 2 1]
  from g1 h [of None] no
  have "\<forall>u\<in>set (issued (exFamily None) (snd (tick 100 (exFamily None)))). fst u \<noteq> ''child''"
    by blast
  then have w1: "''child'' \<notin> fst ` set (issued (exFamily None) (snd (tick 100 (exFamily None))))"
    by (auto simp: image_iff)
  from g2 h [of "Some exRegisteredParent"] bd nm
  have "\<forall>u\<in>set (issued (exFamily (Some exRegisteredParent))
                   (snd (tick 100 (exFamily (Some exRegisteredParent))))).
           fst u = ''child'' \<longrightarrow>
           obj_get (snd u) ''parentId'' =
             js_prop (el_getAttribute (exFamily (Some exRegisteredParent)) 1 ''firebase-broadcast'') ''id''"
    by blast
  with first pid have w2:
    "obj_get (snd (hd (issued (exFamily (Some exRegisteredParent))
                            (snd (tick 100 (exFamily (Some exRegisteredParent))))))) ''parentId'' =
     JStr ''-K7''"
    by metis
  from w1 first w2 show ?thesis by (intro conjI) simp_all
qed

end
